theory Spec2Isabelle
  imports Main "HOL-Library.Sublist"
begin

section \<open>Values shared by the classifier and the relay\<close>

text \<open>
  JavaScript strings are modelled as \<open>string\<close>, one \<open>char\<close> per UTF-16 code unit in the
  range 0..255 (ASCII and Latin-1); \<open>length\<close> is the source's \<open>.length\<close> on that range.

  A JSON value as \<open>JSON.parse\<close> returns it. Numbers are restricted to the integer-valued
  ones (token counts, status codes), and arithmetic on them is left to the platform
  where the source computes with them; an object is the list of its properties, read
  with \<open>map_of\<close>.
\<close>

datatype json =
    JNull
  | JBool bool
  | JNum int
  | JStr string
  | JArr "json list"
  | JObj "(string \<times> json) list"

section \<open>Complexity classifier\<close>

subsection \<open>String primitives\<close>

definition upperChars :: "char list" where
  "upperChars = ''ABCDEFGHIJKLMNOPQRSTUVWXYZ'' @
     [CHR 0xC0, CHR 0xC1, CHR 0xC2, CHR 0xC3, CHR 0xC4, CHR 0xC5, CHR 0xC6, CHR 0xC7,
      CHR 0xC8, CHR 0xC9, CHR 0xCA, CHR 0xCB, CHR 0xCC, CHR 0xCD, CHR 0xCE, CHR 0xCF,
      CHR 0xD0, CHR 0xD1, CHR 0xD2, CHR 0xD3, CHR 0xD4, CHR 0xD5, CHR 0xD6,
      CHR 0xD8, CHR 0xD9, CHR 0xDA, CHR 0xDB, CHR 0xDC, CHR 0xDD, CHR 0xDE]"

definition lowerChars :: "char list" where
  "lowerChars = ''abcdefghijklmnopqrstuvwxyz'' @
     [CHR 0xE0, CHR 0xE1, CHR 0xE2, CHR 0xE3, CHR 0xE4, CHR 0xE5, CHR 0xE6, CHR 0xE7,
      CHR 0xE8, CHR 0xE9, CHR 0xEA, CHR 0xEB, CHR 0xEC, CHR 0xED, CHR 0xEE, CHR 0xEF,
      CHR 0xF0, CHR 0xF1, CHR 0xF2, CHR 0xF3, CHR 0xF4, CHR 0xF5, CHR 0xF6,
      CHR 0xF8, CHR 0xF9, CHR 0xFA, CHR 0xFB, CHR 0xFC, CHR 0xFD, CHR 0xFE]"

text \<open>\<open>String.prototype.toLowerCase\<close> on code units 0..255: the letters A-Z and the
  upper-case Latin-1 letters (0xC0-0xDE without the multiplication sign 0xD7) move up
  by 32, every other code unit is unchanged.\<close>

definition toLowerChar :: "char \<Rightarrow> char" where
  "toLowerChar c = (case map_of (zip upperChars lowerChars) c of Some d \<Rightarrow> d | None \<Rightarrow> c)"

definition toLowerCase :: "string \<Rightarrow> string" where
  "toLowerCase s = map toLowerChar s"

text \<open>White space and line terminators of ECMAScript within code units 0..255:
  TAB, LF, VT, FF, CR, SPACE and NBSP are stripped by \<open>trim\<close>.\<close>

definition isWhiteSpace :: "char \<Rightarrow> bool" where
  "isWhiteSpace c = (c \<in> set [CHR 0x09, CHR 0x0A, CHR 0x0B, CHR 0x0C, CHR 0x0D, CHR 0x20, CHR 0xA0])"

definition trim :: "string \<Rightarrow> string" where
  "trim s = rev (dropWhile isWhiteSpace (rev (dropWhile isWhiteSpace s)))"

text \<open>\<open>Array.prototype.join\<close> on strings.\<close>

fun join :: "string \<Rightarrow> string list \<Rightarrow> string" where
  "join sep [] = []"
| "join sep [x] = x"
| "join sep (x # y # ys) = x @ sep @ join sep (y # ys)"

subsection \<open>The regular expressions of the classifier\<close>

text \<open>
  Every regular expression of \<open>classifyComplexity\<close> is an alternation of sequences built
  from literal text, the digit class \<open>\d\<close> and \<open>.*\<close>; \<open>.\<close> matches every code unit except
  the line terminators LF and CR. \<open>regexTest\<close> is \<open>RegExp.prototype.test\<close> without flags:
  is there a match starting at some position of the string.
\<close>

datatype atom = Lit string | Digit | DotStar

definition isDigit :: "char \<Rightarrow> bool" where
  "isDigit c = (c \<in> set ''0123456789'')"

definition isLineTerminator :: "char \<Rightarrow> bool" where
  "isLineTerminator c = (c = CHR 0x0A \<or> c = CHR 0x0D)"

fun matchHere :: "atom list \<Rightarrow> string \<Rightarrow> bool" where
  "matchHere [] s = True"
| "matchHere (Lit p # as) s = (prefix p s \<and> matchHere as (drop (length p) s))"
| "matchHere (Digit # as) [] = False"
| "matchHere (Digit # as) (c # cs) = (isDigit c \<and> matchHere as cs)"
| "matchHere (DotStar # as) [] = matchHere as []"
| "matchHere (DotStar # as) (c # cs) =
     (matchHere as (c # cs) \<or> (\<not> isLineTerminator c \<and> matchHere (DotStar # as) cs))"

fun search :: "atom list \<Rightarrow> string \<Rightarrow> bool" where
  "search as [] = matchHere as []"
| "search as (c # cs) = (matchHere as (c # cs) \<or> search as cs)"

definition regexTest :: "atom list list \<Rightarrow> string \<Rightarrow> bool" where
  "regexTest alts s = list_ex (\<lambda>as. search as s) alts"

text \<open>\<^verbatim>\<open>/```/\<close>\<close>
definition reFence :: "atom list list" where
  "reFence = [ [Lit ''```''] ]"

text \<open>\<^verbatim>\<open>/function |class |const |import /\<close>\<close>
definition reCode :: "atom list list" where
  "reCode = [ [Lit ''function ''], [Lit ''class ''], [Lit ''const ''], [Lit ''import ''] ]"

text \<open>\<^verbatim>\<open>/analyze|compare|evaluate|assess|review|audit/\<close>\<close>
definition reAnalytical :: "atom list list" where
  "reAnalytical = [ [Lit ''analyze''], [Lit ''compare''], [Lit ''evaluate''],
                   [Lit ''assess''], [Lit ''review''], [Lit ''audit''] ]"

text \<open>\<^verbatim>\<open>/calculate|compute|solve|equation|prove|derive/\<close>\<close>
definition reComputation :: "atom list list" where
  "reComputation = [ [Lit ''calculate''], [Lit ''compute''], [Lit ''solve''],
                    [Lit ''equation''], [Lit ''prove''], [Lit ''derive''] ]"

text \<open>\<^verbatim>\<open>/first.*then|step \d|1\).*2\)|phase \d/\<close>\<close>
definition reMultiStep :: "atom list list" where
  "reMultiStep = [ [Lit ''first'', DotStar, Lit ''then''], [Lit ''step '', Digit],
                  [Lit ''1)'', DotStar, Lit ''2)''], [Lit ''phase '', Digit] ]"

text \<open>\<^verbatim>\<open>/write a (story|essay|article|report)|create a|design a|build a/\<close>, the group
  written out as its four alternatives.\<close>
definition reCreative :: "atom list list" where
  "reCreative = [ [Lit ''write a story''], [Lit ''write a essay''], [Lit ''write a article''],
                 [Lit ''write a report''], [Lit ''create a''], [Lit ''design a''],
                 [Lit ''build a''] ]"

text \<open>\<^verbatim>\<open>/refactor|migrate|architect|implement|integrate/\<close>\<close>
definition reEngineering :: "atom list list" where
  "reEngineering = [ [Lit ''refactor''], [Lit ''migrate''], [Lit ''architect''],
                    [Lit ''implement''], [Lit ''integrate''] ]"

subsection \<open>Messages\<close>

text \<open>
  A content block \<open>{ type?: string; text?: string }\<close>, and a message
  \<open>{ content?: unknown; role?: string }\<close>: the content is a string, an array of blocks,
  or anything else (\<open>COther\<close>, which includes a missing content).
\<close>

datatype block = Block (btype: "string option") (btext: "string option")

datatype content = CStr string | CBlocks "block list" | COther

datatype message = Message (content: content) (role: "string option")

datatype Complexity = Simple | Moderate | Complex

definition hasType :: "string \<Rightarrow> block \<Rightarrow> bool" where
  "hasType t p = (btype p = Some t)"

definition isToolBlock :: "block \<Rightarrow> bool" where
  "isToolBlock p = (hasType ''tool_result'' p \<or> hasType ''tool_use'' p)"

text \<open>\<open>c.text ?? ""\<close>.\<close>
definition blockText :: "block \<Rightarrow> string" where
  "blockText c = (case btext c of Some t \<Rightarrow> t | None \<Rightarrow> [])"

definition extractSingleMessageText :: "message \<Rightarrow> string" where
  "extractSingleMessageText msg =
     (case content msg of
        CStr s \<Rightarrow> s
      | CBlocks cs \<Rightarrow> join '' '' (map blockText (filter (hasType ''text'') cs))
      | COther \<Rightarrow> [])"

definition extractMessageText :: "message list \<Rightarrow> string" where
  "extractMessageText messages = join '' '' (map extractSingleMessageText messages)"

text \<open>The test \<open>isOnlyToolResult\<close> inside the loop of \<open>findLastUserText\<close>; it is made for
  block arrays only.\<close>
definition isOnlyToolResult :: "message \<Rightarrow> bool" where
  "isOnlyToolResult msg =
     (case content msg of
        CBlocks cs \<Rightarrow> \<not> list_ex (hasType ''text'') cs \<and> list_all isToolBlock cs
      | _ \<Rightarrow> False)"

text \<open>The loop of \<open>findLastUserText\<close> runs from the last message down to the first;
  \<open>scanBack\<close> is its body on the messages in that order.\<close>

fun scanBack :: "message list \<Rightarrow> string" where
  "scanBack [] = []"
| "scanBack (msg # rest) =
     (if isOnlyToolResult msg then scanBack rest
      else let text = extractSingleMessageText msg
           in if length (trim text) > 0 then text else scanBack rest)"

definition findLastUserText :: "message list \<Rightarrow> string" where
  "findLastUserText messages = scanBack (rev messages)"

subsection \<open>Scoring\<close>

text \<open>\<open>Math.ceil(n / 4)\<close> for a length \<open>n\<close>.\<close>
definition tokens :: "nat \<Rightarrow> nat" where
  "tokens n = (n + 3) div 4"

text \<open>\<open>if (cond) score += n\<close>.\<close>
definition bump :: "nat \<Rightarrow> bool \<Rightarrow> nat" where
  "bump n cond = (if cond then n else 0)"

text \<open>\<open>Array.isArray(bodyTools) ? bodyTools.length : 0\<close>; \<open>None\<close> is an absent argument.\<close>
definition toolCount :: "json option \<Rightarrow> nat" where
  "toolCount bodyTools = (case bodyTools of Some (JArr ts) \<Rightarrow> length ts | _ \<Rightarrow> 0)"

definition hasToolBlock :: "message \<Rightarrow> bool" where
  "hasToolBlock m = (case content m of CBlocks c \<Rightarrow> list_ex isToolBlock c | _ \<Rightarrow> False)"

definition hasToolResult :: "message \<Rightarrow> bool" where
  "hasToolResult m =
     (case content m of CBlocks c \<Rightarrow> list_ex (hasType ''tool_result'') c | _ \<Rightarrow> False)"

definition hasTools :: "message list \<Rightarrow> json option \<Rightarrow> bool" where
  "hasTools messages bodyTools = (toolCount bodyTools > 0 \<or> list_ex hasToolBlock messages)"

text \<open>\<open>messages.slice(-6)\<close>: the last six messages, all of them when there are fewer.\<close>
definition recentMessages :: "message list \<Rightarrow> message list" where
  "recentMessages messages = drop (length messages - 6) messages"

definition recentToolResults :: "message list \<Rightarrow> nat" where
  "recentToolResults messages = length (filter hasToolResult (recentMessages messages))"

text \<open>The signals of the current turn, in the order of the source.\<close>
definition turnSignals :: "string \<Rightarrow> nat" where
  "turnSignals currentText =
     (let currentTokens = tokens (length currentText) in
        bump 2 (regexTest reFence currentText \<or> regexTest reCode currentText)
      + bump 1 (regexTest reAnalytical currentText)
      + bump 2 (regexTest reComputation currentText)
      + bump 1 (regexTest reMultiStep currentText)
      + bump 1 (currentTokens > 2000)
      + bump 2 (currentTokens > 5000)
      + bump 1 (regexTest reCreative currentText)
      + bump 1 (regexTest reEngineering currentText))"

text \<open>\<open>if (hasTools) score += 2; if (toolCount >= 5) score += 1;
  if (toolCount >= 15) score += 1\<close>.\<close>
definition toolSignals :: "message list \<Rightarrow> json option \<Rightarrow> nat" where
  "toolSignals messages bodyTools =
       bump 2 (hasTools messages bodyTools)
     + bump 1 (toolCount bodyTools \<ge> 5)
     + bump 1 (toolCount bodyTools \<ge> 15)"

text \<open>\<open>if (recentToolResults >= 3) score += 1\<close>.\<close>
definition recentToolSignal :: "message list \<Rightarrow> nat" where
  "recentToolSignal messages = bump 1 (recentToolResults messages \<ge> 3)"

text \<open>\<open>if (system) { ... }\<close>: an absent or empty system prompt adds nothing.\<close>
definition systemSignals :: "string option \<Rightarrow> nat" where
  "systemSignals system =
     (case system of
        None \<Rightarrow> 0
      | Some s \<Rightarrow>
          if s = [] then 0
          else let systemTokens = tokens (length s)
               in bump 1 (systemTokens > 3000) + bump 2 (systemTokens > 8000))"

text \<open>The value of \<open>score\<close> when \<open>classifyComplexity\<close> reaches its thresholds.\<close>
definition complexityScore :: "message list \<Rightarrow> json option \<Rightarrow> string option \<Rightarrow> nat" where
  "complexityScore messages bodyTools system =
     (let currentText = toLowerCase (findLastUserText messages) in
        turnSignals currentText
      + toolSignals messages bodyTools
      + recentToolSignal messages
      + systemSignals system)"

definition classifyComplexity :: "message list \<Rightarrow> json option \<Rightarrow> string option \<Rightarrow> Complexity" where
  "classifyComplexity messages bodyTools system =
     (let score = complexityScore messages bodyTools system in
        if score \<ge> 5 then Complex
        else if score \<ge> 3 then Moderate
        else Simple)"


section \<open>Streaming: the SSE writer\<close>

subsection \<open>The transport\<close>

text \<open>
  The \<open>ServerResponse\<close> that an \<open>SSEWriter\<close> owns, as far as the writer uses it:
  \<open>writeCalls\<close> holds the argument of every call of \<open>response.write\<close>, oldest first;
  \<open>written\<close> holds the arguments of the calls that did not throw, which is what the
  client is sent; \<open>ended\<close> records \<open>response.end()\<close>. Whether a call of \<open>response.write\<close>
  throws is decided by the environment: \<open>faults\<close> is its script, the head says whether
  the next call throws, and an empty script means that no further call throws.
  \<open>response.end()\<close> is taken not to throw (the source does not guard it).
\<close>

record ServerResponse =
  writeCalls :: "string list"
  written :: "string list"
  ended :: bool
  faults :: "bool list"

text \<open>\<open>response.write(s)\<close>: the first component tells whether the call threw.\<close>
definition responseWrite :: "string \<Rightarrow> ServerResponse \<Rightarrow> bool \<times> ServerResponse" where
  "responseWrite s r =
     (case faults r of
        [] \<Rightarrow> (False, r\<lparr>writeCalls := writeCalls r @ [s], written := written r @ [s]\<rparr>)
      | f # fs \<Rightarrow>
          if f then (True, r\<lparr>writeCalls := writeCalls r @ [s], faults := fs\<rparr>)
          else (False, r\<lparr>writeCalls := writeCalls r @ [s], written := written r @ [s],
                        faults := fs\<rparr>))"

definition responseEnd :: "ServerResponse \<Rightarrow> ServerResponse" where
  "responseEnd r = r\<lparr>ended := True\<rparr>"

subsection \<open>Messages and their wire format\<close>

text \<open>\<open>interface SSEMessage { event?: string; data: unknown; id?: string; retry?: number }\<close>;
  the field \<open>id\<close> is named \<open>msgId\<close> here.\<close>

record SSEMessage =
  event :: "string option"
  data :: json
  msgId :: "string option"
  retry :: "int option"

text \<open>\<open>{ data: d }\<close>.\<close>
definition dataMessage :: "json \<Rightarrow> SSEMessage" where
  "dataMessage d = \<lparr>event = None, data = d, msgId = None, retry = None\<rparr>"

text \<open>\<open>String.prototype.split\<close> with a one-character separator: the result is never
  empty (so the first case below is never taken), and a string without the separator
  gives the string itself.\<close>
fun splitOn :: "char \<Rightarrow> string \<Rightarrow> string list" where
  "splitOn d [] = [ [] ]"
| "splitOn d (c # cs) =
     (if c = d then [] # splitOn d cs
      else case splitOn d cs of
             [] \<Rightarrow> [ [c] ]
           | line # lines \<Rightarrow> (c # line) # lines)"

text \<open>An optional string that is present and not empty (JavaScript truthiness).\<close>
definition truthyString :: "string option \<Rightarrow> bool" where
  "truthyString s = (case s of Some t \<Rightarrow> t \<noteq> [] | None \<Rightarrow> False)"

text \<open>
  The text that \<open>write\<close> hands to the transport. \<open>stringify\<close> stands for \<open>JSON.stringify\<close>
  of the platform; the number of \<open>retry\<close> is rendered with it as well (a template literal
  and \<open>JSON.stringify\<close> print a finite number alike). A payload that is a string is sent
  as it is, every other payload is stringified.
\<close>
definition wireText :: "(json \<Rightarrow> string) \<Rightarrow> SSEMessage \<Rightarrow> string" where
  "wireText stringify message =
     (let lines0 = (if truthyString (event message) then [''event: '' @ the (event message)] else []);
          lines1 = lines0 @ (if truthyString (msgId message) then [''id: '' @ the (msgId message)] else []);
          lines2 = lines1 @ (case retry message of
                               Some n \<Rightarrow> [''retry: '' @ stringify (JNum n)] | None \<Rightarrow> []);
          dataStr = (case data message of JStr s \<Rightarrow> s | d \<Rightarrow> stringify d);
          lines3 = lines2 @ map (\<lambda>line. ''data: '' @ line) (splitOn CHR ''\<newline>'' dataStr);
          lines4 = lines3 @ [ [], [] ]
      in join ''\<newline>'' lines4)"

subsection \<open>The writer\<close>

record SSEWriter =
  response :: ServerResponse
  closed :: bool

text \<open>The constructor (the response headers are not modelled).\<close>
definition createSSEWriter :: "ServerResponse \<Rightarrow> SSEWriter" where
  "createSSEWriter r = \<lparr>response = r, closed = False\<rparr>"

text \<open>The handler of the \<open>close\<close> event of the response: the client went away.\<close>
definition onResponseClose :: "SSEWriter \<Rightarrow> SSEWriter" where
  "onResponseClose w = w\<lparr>closed := True\<rparr>"

text \<open>\<open>SSEWriter.write\<close>.\<close>
definition writeMessage :: "(json \<Rightarrow> string) \<Rightarrow> SSEMessage \<Rightarrow> SSEWriter \<Rightarrow> bool \<times> SSEWriter" where
  "writeMessage stringify message w =
     (if closed w then (False, w)
      else case responseWrite (wireText stringify message) (response w) of
             (threw, r) \<Rightarrow>
               if threw then (False, w\<lparr>response := r, closed := True\<rparr>)
               else (True, w\<lparr>response := r\<rparr>))"

definition writeData :: "(json \<Rightarrow> string) \<Rightarrow> json \<Rightarrow> SSEWriter \<Rightarrow> bool \<times> SSEWriter" where
  "writeData stringify d w = writeMessage stringify (dataMessage d) w"

definition comment :: "string \<Rightarrow> SSEWriter \<Rightarrow> bool \<times> SSEWriter" where
  "comment t w =
     (if closed w then (False, w)
      else case responseWrite ('': '' @ t @ ''\<newline>\<newline>'') (response w) of
             (threw, r) \<Rightarrow>
               if threw then (False, w\<lparr>response := r, closed := True\<rparr>)
               else (True, w\<lparr>response := r\<rparr>))"

definition close :: "(json \<Rightarrow> string) \<Rightarrow> SSEWriter \<Rightarrow> SSEWriter" where
  "close stringify w =
     (if \<not> closed w then
        let w1 = snd (writeMessage stringify (dataMessage (JStr ''[DONE]'')) w);
            w2 = w1\<lparr>response := responseEnd (response w1)\<rparr>
        in w2\<lparr>closed := True\<rparr>
      else w)"

definition isOpen :: "SSEWriter \<Rightarrow> bool" where
  "isOpen w = (\<not> closed w)"

section \<open>Streaming: the relay\<close>

text \<open>
  What the relay receives from its environment. A thrown value is an \<open>Error\<close> with its
  message, or another value with the text \<open>String(error)\<close> gives for it. The body of the
  upstream response is the finite script of what happens while the relay awaits
  \<open>reader.read()\<close>: a read that resolves with text (already decoded) at a clock time, a
  read that throws, or the client closing the connection while the relay waits. When
  the script is used up, the next read reports \<open>done\<close>. An upstream that never ends is a
  call that never returns; the script describes the calls that return.
\<close>

datatype thrown = ErrorObject string | OtherValue string

datatype readStep = Chunk int string | ReadThrows thrown | ClientClose

record Response =
  status :: int
  body :: "readStep list option"

text \<open>\<open>response.ok\<close> of the Fetch standard.\<close>
definition ok :: "Response \<Rightarrow> bool" where
  "ok r = (200 \<le> status r \<and> status r \<le> 299)"

datatype fetched = FetchThrows thrown | Fetched Response

text \<open>The calls of the optional callbacks, in order. The callbacks are taken to return
  normally.\<close>
datatype callback = OnChunk json | OnComplete "json list" | OnError string

record RelayOutcome =
  success :: bool
  chunks :: "json list"
  ttftMs :: "int option"

text \<open>The local variables \<open>chunks\<close>, \<open>ttftMs\<close>, \<open>buffer\<close> of \<open>streamProviderResponse\<close>,
  its writer and the callback calls made so far.\<close>
record relayState =
  st_chunks :: "json list"
  st_ttftMs :: "int option"
  st_buffer :: string
  st_writer :: SSEWriter
  st_calls :: "callback list"

text \<open>What a call leaves behind: the value it returns, the writer, the callback calls.\<close>
record relayRun =
  outcome :: RelayOutcome
  sink :: SSEWriter
  calls :: "callback list"

text \<open>A loop body either returns from the function or goes on.\<close>
datatype 'a flow = Return 'a | Next 'a

definition errorMessage :: "thrown \<Rightarrow> string" where
  "errorMessage e = (case e of ErrorObject m \<Rightarrow> m | OtherValue s \<Rightarrow> s)"

text \<open>\<open>chunks.push(parsed); callbacks?.onChunk?.(parsed)\<close>.\<close>
definition pushChunk :: "json \<Rightarrow> relayState \<Rightarrow> relayState" where
  "pushChunk parsed st =
     st\<lparr>st_chunks := st_chunks st @ [parsed], st_calls := st_calls st @ [OnChunk parsed]\<rparr>"

text \<open>
  The loop \<open>for (const line of lines)\<close>. \<open>parse\<close> stands for \<open>JSON.parse\<close> of the platform,
  \<open>None\<close> when it throws.
\<close>
fun forLines ::
  "(string \<Rightarrow> json option) \<Rightarrow> (json \<Rightarrow> string) \<Rightarrow> string list \<Rightarrow> relayState \<Rightarrow> relayState flow"
where
  "forLines parse stringify [] st = Next st"
| "forLines parse stringify (line # rest) st =
     (if prefix ''data: '' line then
        let data = drop 6 line in
        if data = ''[DONE]'' then forLines parse stringify rest st
        else case parse data of
               None \<Rightarrow> forLines parse stringify rest st
             | Some parsed \<Rightarrow>
                 let st1 = pushChunk parsed st;
                     (written_ok, w) = writeMessage stringify (dataMessage parsed) (st_writer st1)
                 in if \<not> written_ok then Return (st1\<lparr>st_writer := w\<rparr>)
                    else forLines parse stringify rest (st1\<lparr>st_writer := w\<rparr>)
      else forLines parse stringify rest st)"

text \<open>The \<open>catch (error)\<close> block of \<open>streamProviderResponse\<close>.\<close>
definition catchBlock :: "(json \<Rightarrow> string) \<Rightarrow> thrown \<Rightarrow> relayState \<Rightarrow> relayRun" where
  "catchBlock stringify e st =
     (let cs = st_calls st @ [OnError (errorMessage e)];
          msg = (case e of ErrorObject m \<Rightarrow> m | OtherValue s \<Rightarrow> ''Stream error'');
          w1 = snd (writeMessage stringify
                 \<lparr>event = Some ''error'',
                  data = JObj [(''error'', JObj [(''message'', JStr msg)])],
                  msgId = None, retry = None\<rparr> (st_writer st));
          w2 = close stringify w1
      in \<lparr>outcome = \<lparr>success = False, chunks = st_chunks st, ttftMs = st_ttftMs st\<rparr>,
          sink = w2, calls = cs\<rparr>)"

text \<open>After the read loop: the rest of the buffer, \<open>onComplete\<close>, \<open>close\<close>, and the
  successful return. The result of the last \<open>write\<close> is not looked at.\<close>
definition afterLoop ::
  "(string \<Rightarrow> json option) \<Rightarrow> (json \<Rightarrow> string) \<Rightarrow> relayState \<Rightarrow> relayRun"
where
  "afterLoop parse stringify st =
     (let st1 =
            (if prefix ''data: '' (st_buffer st) then
               let data = drop 6 (st_buffer st) in
               if data \<noteq> [] \<and> data \<noteq> ''[DONE]'' then
                 case parse data of
                   None \<Rightarrow> st
                 | Some parsed \<Rightarrow>
                     let st' = pushChunk parsed st
                     in st'\<lparr>st_writer := snd (writeMessage stringify (dataMessage parsed) (st_writer st'))\<rparr>
               else st
             else st);
          cs = st_calls st1 @ [OnComplete (st_chunks st1)];
          w = close stringify (st_writer st1)
      in \<lparr>outcome = \<lparr>success = True, chunks = st_chunks st1, ttftMs = st_ttftMs st1\<rparr>,
          sink = w, calls = cs\<rparr>)"

text \<open>The loop \<open>while (true)\<close> over the reads, \<open>startTime\<close> being the clock at the call.\<close>
fun readLoop ::
  "(string \<Rightarrow> json option) \<Rightarrow> (json \<Rightarrow> string) \<Rightarrow> int \<Rightarrow> readStep list \<Rightarrow> relayState \<Rightarrow> relayRun"
where
  "readLoop parse stringify startTime [] st = afterLoop parse stringify st"
| "readLoop parse stringify startTime (Chunk now str # steps) st =
     (let st1 = (if st_ttftMs st = None then st\<lparr>st_ttftMs := Some (now - startTime)\<rparr> else st);
          lines = splitOn CHR ''\<newline>'' (st_buffer st1 @ str);
          st2 = st1\<lparr>st_buffer := last lines\<rparr>
      in case forLines parse stringify (butlast lines) st2 of
           Return st3 \<Rightarrow>
             \<lparr>outcome = \<lparr>success = False, chunks = st_chunks st3, ttftMs = st_ttftMs st3\<rparr>,
              sink = st_writer st3, calls = st_calls st3\<rparr>
         | Next st3 \<Rightarrow> readLoop parse stringify startTime steps st3)"
| "readLoop parse stringify startTime (ReadThrows e # steps) st = catchBlock stringify e st"
| "readLoop parse stringify startTime (ClientClose # steps) st =
     readLoop parse stringify startTime steps (st\<lparr>st_writer := onResponseClose (st_writer st)\<rparr>)"

text \<open>
  \<open>streamProviderResponse\<close>. The call of \<open>fetch\<close> (with the url, the headers and the
  serialised request) belongs to the environment: \<open>upstream\<close> is what that call gives,
  a response or a thrown value. The result holds the returned outcome together with the
  writer and the callback calls the call leaves behind.
\<close>
definition streamProviderResponse ::
  "(string \<Rightarrow> json option) \<Rightarrow> (json \<Rightarrow> string) \<Rightarrow> int \<Rightarrow> fetched \<Rightarrow> SSEWriter \<Rightarrow> relayRun"
where
  "streamProviderResponse parse stringify startTime upstream writer =
     (let st = \<lparr>st_chunks = [], st_ttftMs = None, st_buffer = [], st_writer = writer,
                st_calls = []\<rparr>
      in case upstream of
           FetchThrows e \<Rightarrow> catchBlock stringify e st
         | Fetched resp \<Rightarrow>
             (if \<not> ok resp then
                (let message = ''Provider returned '' @ stringify (JNum (status resp));
                     w1 = snd (writeMessage stringify
                            \<lparr>event = Some ''error'',
                             data = JObj [(''error'', JObj [(''message'', JStr message),
                                                            (''status'', JNum (status resp))])],
                             msgId = None, retry = None\<rparr> writer);
                     w2 = close stringify w1
                 in \<lparr>outcome = \<lparr>success = False, chunks = [], ttftMs = None\<rparr>,
                     sink = w2, calls = [OnError message]\<rparr>)
              else
                (case body resp of
                   None \<Rightarrow>
                     \<lparr>outcome = \<lparr>success = False, chunks = [], ttftMs = None\<rparr>,
                      sink = close stringify writer, calls = [OnError ''No response body'']\<rparr>
                 | Some steps \<Rightarrow> readLoop parse stringify startTime steps st)))"

text \<open>\<open>startKeepAlive\<close> only sets a timer that calls \<open>comment\<close> while \<open>isOpen\<close> holds; timers
  are outside this model.\<close>

section \<open>Streaming: the aggregator\<close>

text \<open>Property access \<open>v.key\<close> on a value that is not \<open>null\<close>: a property of an object, and
  \<open>undefined\<close> (\<open>None\<close>) on everything else for the keys read here.\<close>
definition getProp :: "json \<Rightarrow> string \<Rightarrow> json option" where
  "getProp v key = (case v of JObj kvs \<Rightarrow> map_of kvs key | _ \<Rightarrow> None)"

text \<open>\<open>v && typeof v === 'object'\<close>: an object or an array.\<close>
definition isObjectValue :: "json option \<Rightarrow> bool" where
  "isObjectValue v = (case v of Some (JObj _) \<Rightarrow> True | Some (JArr _) \<Rightarrow> True | _ \<Rightarrow> False)"

text \<open>\<open>v && typeof v === 'string'\<close>: a string that is not empty.\<close>
definition nonEmptyString :: "json option \<Rightarrow> string option" where
  "nonEmptyString v = (case v of Some (JStr s) \<Rightarrow> (if s = [] then None else Some s) | _ \<Rightarrow> None)"

record usage =
  prompt_tokens :: int
  completion_tokens :: int
  total_tokens :: json

text \<open>The four accumulators, the fields of the result (\<open>agg_\<close> is put before the names
  of the source).\<close>
record aggregate =
  agg_content :: string
  agg_usage :: "usage option"
  agg_model :: "string option"
  agg_finish_reason :: "string option"

datatype typeError = TypeError

text \<open>The part of the loop body that reads \<open>c.choices[0]\<close>. Reading a property of \<open>null\<close>
  throws a \<open>TypeError\<close>.\<close>
definition fromChoice :: "json \<Rightarrow> aggregate \<Rightarrow> typeError + aggregate" where
  "fromChoice choice acc =
     (if choice = JNull then Inl TypeError
      else
        let acc1 =
              (if isObjectValue (getProp choice ''delta'') then
                 (case getProp (the (getProp choice ''delta'')) ''content'' of
                    Some (JStr s) \<Rightarrow> acc\<lparr>agg_content := agg_content acc @ s\<rparr>
                  | _ \<Rightarrow> acc)
               else acc);
            acc2 =
              (case nonEmptyString (getProp choice ''finish_reason'') of
                 Some r \<Rightarrow> acc1\<lparr>agg_finish_reason := Some r\<rparr>
               | None \<Rightarrow> acc1)
        in Inr acc2)"

text \<open>The part of the loop body that reads \<open>c.usage\<close>; \<open>total_tokens\<close> is whatever the
  chunk holds there, and the sum when it holds nothing or \<open>null\<close>. \<open>numAdd\<close> stands for
  the addition of two numbers of the platform (IEEE 754 doubles, which rounds sums
  beyond 2^53); the numbers of the model are the integer-valued ones.\<close>
definition fromUsage :: "(int \<Rightarrow> int \<Rightarrow> int) \<Rightarrow> json \<Rightarrow> aggregate \<Rightarrow> aggregate" where
  "fromUsage numAdd c acc =
     (if isObjectValue (getProp c ''usage'') then
        let u = the (getProp c ''usage'') in
        (case (getProp u ''prompt_tokens'', getProp u ''completion_tokens'') of
           (Some (JNum p), Some (JNum q)) \<Rightarrow>
             acc\<lparr>agg_usage := Some \<lparr>prompt_tokens = p, completion_tokens = q,
                    total_tokens = (case getProp u ''total_tokens'' of
                                      None \<Rightarrow> JNum (numAdd p q)
                                    | Some JNull \<Rightarrow> JNum (numAdd p q)
                                    | Some t \<Rightarrow> t)\<rparr>\<rparr>
         | _ \<Rightarrow> acc)
      else acc)"

text \<open>One turn of \<open>for (const chunk of chunks)\<close>; a chunk that is not an object or an array
  (\<open>typeof chunk !== 'object' || chunk === null\<close>) is skipped.\<close>
definition aggregateChunk ::
  "(int \<Rightarrow> int \<Rightarrow> int) \<Rightarrow> json \<Rightarrow> aggregate \<Rightarrow> typeError + aggregate"
where
  "aggregateChunk numAdd chunk acc =
     (if \<not> isObjectValue (Some chunk) then Inr acc
      else
        let acc1 = (case nonEmptyString (getProp chunk ''model'') of
                      Some m \<Rightarrow> acc\<lparr>agg_model := Some m\<rparr> | None \<Rightarrow> acc)
        in case (case getProp chunk ''choices'' of
                   Some (JArr (choice # _)) \<Rightarrow> fromChoice choice acc1
                 | _ \<Rightarrow> Inr acc1) of
             Inl e \<Rightarrow> Inl e
           | Inr acc2 \<Rightarrow> Inr (fromUsage numAdd chunk acc2))"

fun aggregateLoop ::
  "(int \<Rightarrow> int \<Rightarrow> int) \<Rightarrow> json list \<Rightarrow> aggregate \<Rightarrow> typeError + aggregate"
where
  "aggregateLoop numAdd [] acc = Inr acc"
| "aggregateLoop numAdd (chunk # rest) acc =
     (case aggregateChunk numAdd chunk acc of
        Inl e \<Rightarrow> Inl e
      | Inr acc' \<Rightarrow> aggregateLoop numAdd rest acc')"

definition aggregateStreamingResponse ::
  "(int \<Rightarrow> int \<Rightarrow> int) \<Rightarrow> json list \<Rightarrow> typeError + aggregate"
where
  "aggregateStreamingResponse numAdd cs =
     aggregateLoop numAdd cs \<lparr>agg_content = [], agg_usage = None, agg_model = None,
                       agg_finish_reason = None\<rparr>"

section \<open>Notions used to state the properties\<close>

subsection \<open>The classifier\<close>

text \<open>The tiers in ascending order of cost.\<close>
fun tierRank :: "Complexity \<Rightarrow> nat" where
  "tierRank Simple = 0"
| "tierRank Moderate = 1"
| "tierRank Complex = 2"

text \<open>A message that the loop of \<open>findLastUserText\<close> passes over: the \<open>continue\<close> for pure
  tool traffic, or a text that is empty after \<open>trim\<close>. The current turn is the last message
  that is not passed over.\<close>
definition passedOver :: "message \<Rightarrow> bool" where
  "passedOver m = (isOnlyToolResult m \<or> \<not> length (trim (extractSingleMessageText m)) > 0)"

text \<open>Appending \<open>extra\<close> to the text of a message: to the string content, or to the text
  of the last \<open>text\<close> block of a block array. Every block keeps its type.\<close>
fun appendLastText :: "string \<Rightarrow> block list \<Rightarrow> block list" where
  "appendLastText extra [] = []"
| "appendLastText extra (b # bs) =
     (if list_ex (hasType ''text'') bs then b # appendLastText extra bs
      else if hasType ''text'' b then Block (btype b) (Some (blockText b @ extra)) # bs
      else b # bs)"

definition appendText :: "string \<Rightarrow> message \<Rightarrow> message" where
  "appendText extra m =
     (case content m of
        CStr s \<Rightarrow> Message (CStr (s @ extra)) (role m)
      | CBlocks bs \<Rightarrow> Message (CBlocks (appendLastText extra bs)) (role m)
      | COther \<Rightarrow> m)"

text \<open>The count that the specification describes for recent tool activity: the
  \<open>tool_result\<close> blocks, one by one, inside the last six messages.\<close>
definition toolResultBlocks :: "message \<Rightarrow> nat" where
  "toolResultBlocks m =
     (case content m of CBlocks c \<Rightarrow> length (filter (hasType ''tool_result'') c) | _ \<Rightarrow> 0)"

definition recentToolResultBlocks :: "message list \<Rightarrow> nat" where
  "recentToolResultBlocks messages = sum_list (map toolResultBlocks (recentMessages messages))"

text \<open>The message of the code-fence scenario.\<close>
definition fenceText :: string where
  "fenceText = ''```\<newline>const x = 1;\<newline>```''"

text \<open>Messages of the examples: a user text and a pure tool-result message.\<close>
definition userText :: "string \<Rightarrow> message" where
  "userText s = Message (CStr s) (Some ''user'')"

definition toolResultBlock :: block where
  "toolResultBlock = Block (Some ''tool_result'') None"

definition toolResultMessage :: "nat \<Rightarrow> message" where
  "toolResultMessage n = Message (CBlocks (replicate n toolResultBlock)) (Some ''user'')"

subsection \<open>The streaming code\<close>

text \<open>The message \<open>close\<close> sends, as the transport receives it.\<close>
definition doneFrame :: string where
  "doneFrame = ''data: [DONE]\<newline>\<newline>''"

text \<open>A writer on a fresh transport that accepts every write.\<close>
definition openWriter :: SSEWriter where
  "openWriter = createSSEWriter \<lparr>writeCalls = [], written = [], ended = False, faults = []\<rparr>"

text \<open>A writer on a fresh transport whose first write throws.\<close>
definition brokenPipeWriter :: SSEWriter where
  "brokenPipeWriter = createSSEWriter \<lparr>writeCalls = [], written = [], ended = False, faults = [True]\<rparr>"

text \<open>
  Instances of the two platform functions for the examples. They agree with \<open>JSON.parse\<close>
  and \<open>JSON.stringify\<close> on what the examples send: the payloads \<open>1\<close>, \<open>2\<close>, \<open>3\<close> are the
  numbers, the payload \<open>{bad\<close> is not JSON, and the numbers 1, 2, 3, 500 and the two
  error objects are printed as JSON prints them. The general theorems hold for every
  \<open>parse\<close> and \<open>stringify\<close>.
\<close>
definition exampleParse :: "string \<Rightarrow> json option" where
  "exampleParse s = map_of [(''1'', JNum 1), (''2'', JNum 2), (''3'', JNum 3)] s"

definition exampleStringify :: "json \<Rightarrow> string" where
  "exampleStringify j =
     (case map_of
        [(JNum 1, ''1''), (JNum 2, ''2''), (JNum 3, ''3''), (JNum 500, ''500''),
         (JObj [(''error'', JObj [(''message'', JStr ''socket hang up'')])],
          ''{\"error\":{\"message\":\"socket hang up\"}}''),
         (JObj [(''error'', JObj [(''message'', JStr ''Provider returned 500''),
                                  (''status'', JNum 500)])],
          ''{\"error\":{\"message\":\"Provider returned 500\",\"status\":500}}'')] j of
        Some s \<Rightarrow> s
      | None \<Rightarrow> ''null'')"

text \<open>A successful upstream response with the given body script.\<close>
definition streaming :: "readStep list \<Rightarrow> fetched" where
  "streaming steps = Fetched \<lparr>status = 200, body = Some steps\<rparr>"

text \<open>The text a read step delivers.\<close>
fun textOf :: "readStep \<Rightarrow> string" where
  "textOf (Chunk now str) = str"
| "textOf (ReadThrows e) = []"
| "textOf ClientClose = []"

text \<open>The upstream text ends at a line boundary: it is empty or ends with a newline.\<close>
definition atLineStart :: "string \<Rightarrow> bool" where
  "atLineStart s = (s = [] \<or> last s = CHR ''\<newline>'')"

text \<open>A stream chunk of the shape \<open>{choices: [{delta: {content: fragment}}]}\<close>.\<close>
definition deltaChunk :: "string \<Rightarrow> json" where
  "deltaChunk fragment =
     JObj [(''choices'', JArr [JObj [(''delta'', JObj [(''content'', JStr fragment)])] ])]"

text \<open>A writer that is open on a transport that will accept every write.\<close>
definition accepting :: "SSEWriter \<Rightarrow> bool" where
  "accepting w = (\<not> closed w \<and> True \<notin> set (faults (response w)))"

text \<open>The client does not close the connection while the relay reads the body.\<close>
definition clientStays :: "fetched \<Rightarrow> bool" where
  "clientStays upstream =
     (case upstream of
        FetchThrows e \<Rightarrow> True
      | Fetched resp \<Rightarrow> (case body resp of None \<Rightarrow> True | Some steps \<Rightarrow> ClientClose \<notin> set steps))"

text \<open>A line that the loop over the lines passes without any effect: a line that is not
  a \<open>data:\<close> line, the \<open>[DONE]\<close> line, or a \<open>data:\<close> line that \<open>JSON.parse\<close> rejects.\<close>
definition inertLine :: "(string \<Rightarrow> json option) \<Rightarrow> string \<Rightarrow> bool" where
  "inertLine parse line =
     (\<not> prefix ''data: '' line \<or> drop 6 line = ''[DONE]'' \<or> parse (drop 6 line) = None)"

text \<open>The client-facing stream has been terminated: the transport is ended and the last
  message it received is \<open>[DONE]\<close>.\<close>
definition terminated :: "SSEWriter \<Rightarrow> bool" where
  "terminated w =
     (ended (response w) \<and> written (response w) \<noteq> [] \<and> last (written (response w)) = doneFrame)"

text \<open>The same step of the script with no text delivered.\<close>
fun blank :: "readStep \<Rightarrow> readStep" where
  "blank (Chunk now str) = Chunk now []"
| "blank (ReadThrows e) = ReadThrows e"
| "blank ClientClose = ClientClose"














section \<open>Properties of the classifier\<close>

lemma tokens_mono: "m \<le> n \<Longrightarrow> tokens m \<le> tokens n"
  by (simp add: tokens_def div_le_mono)

lemma bump_mono: "(c \<Longrightarrow> c') \<Longrightarrow> bump n c \<le> bump n c'"
  by (auto simp: bump_def)

lemma matchHere_append: "matchHere as s \<Longrightarrow> matchHere as (s @ t)"
proof (induction as s rule: matchHere.induct)
  case (2 p as s)
  then show ?case by (auto simp: prefix_def)
next
  case (5 as)
  then show ?case by (cases t) auto
qed auto

lemma search_append: "search as s \<Longrightarrow> search as (s @ t)"
proof (induction s)
  case Nil
  then show ?case using matchHere_append[of as "[]" t] by (cases t) auto
next
  case (Cons c cs)
  then show ?case using matchHere_append[of as "c # cs" t] by auto
qed

lemma regexTest_append: "regexTest alts s \<Longrightarrow> regexTest alts (s @ t)"
  by (auto simp: regexTest_def list_ex_iff intro: search_append)

lemma turnSignals_append: "turnSignals s \<le> turnSignals (s @ t)"
  unfolding turnSignals_def Let_def
  apply (intro add_mono bump_mono)
  using regexTest_append tokens_mono[of "length s" "length (s @ t)"] by auto

lemma count_from:
  "card {j. j < length xs \<and> k \<le> j \<and> P (xs ! j)} = length (filter P (drop k xs))"
proof -
  have "{j. j < length xs \<and> k \<le> j \<and> P (xs ! j)}
        = (+) k ` {i. i < length (drop k xs) \<and> P (drop k xs ! i)}" (is "?A = ?f ` ?B")
  proof (rule set_eqI, rule iffI)
    fix j assume "j \<in> ?A"
    then have "j - k \<in> ?B" "j = k + (j - k)" by auto
    then show "j \<in> ?f ` ?B" by blast
  next
    fix j assume "j \<in> ?f ` ?B"
    then show "j \<in> ?A" by (auto simp: add.commute)
  qed
  then have "card ?A = card ?B" by (simp add: card_image)
  then show ?thesis by (simp add: length_filter_conv_card)
qed

lemma recent_count:
  "card {i. i < length ms \<and> length ms \<le> i + 6 \<and> hasToolResult (ms ! i)} = recentToolResults ms"
proof -
  have "{i. i < length ms \<and> length ms \<le> i + 6 \<and> hasToolResult (ms ! i)}
        = {i. i < length ms \<and> length ms - 6 \<le> i \<and> hasToolResult (ms ! i)}" by auto
  then show ?thesis by (simp add: count_from recentToolResults_def recentMessages_def)
qed

lemma dropWhile_rev_Nil:
  "xs = [] \<or> \<not> P (hd xs) \<Longrightarrow> (dropWhile P (rev xs) = []) = (xs = [])"
  by (cases xs) (auto simp: dropWhile_append)

lemma trim_Nil_iff: "trim s = [] \<longleftrightarrow> list_all isWhiteSpace s"
proof -
  have "dropWhile isWhiteSpace s = [] \<or> \<not> isWhiteSpace (hd (dropWhile isWhiteSpace s))"
    using hd_dropWhile[of isWhiteSpace s] by blast
  then have "trim s = [] \<longleftrightarrow> dropWhile isWhiteSpace s = []"
    unfolding trim_def by (simp only: rev_is_Nil_conv dropWhile_rev_Nil)
  then show ?thesis by (simp add: list_all_iff)
qed

lemma join_Cons: "ys \<noteq> [] \<Longrightarrow> join sep (x # ys) = x @ sep @ join sep ys"
  by (cases ys) auto

lemma appendLastText_btype: "map btype (appendLastText e bs) = map btype bs"
  by (induction bs) auto

lemma list_ex_hasType_cong:
  "map btype bs = map btype cs \<Longrightarrow> list_ex (hasType t) bs = list_ex (hasType t) cs"
proof -
  assume a: "map btype bs = map btype cs"
  have "list_ex (hasType t) xs = list_ex (\<lambda>x. x = Some t) (map btype xs)" for xs
    by (induction xs) (auto simp: hasType_def)
  with a show ?thesis by simp
qed

lemma list_ex_tool_cong:
  "map btype bs = map btype cs \<Longrightarrow> list_ex isToolBlock bs = list_ex isToolBlock cs"
proof -
  assume a: "map btype bs = map btype cs"
  have "list_ex isToolBlock xs
        = list_ex (\<lambda>t. t = Some ''tool_result'' \<or> t = Some ''tool_use'') (map btype xs)" for xs
    by (induction xs) (auto simp: isToolBlock_def hasType_def)
  with a show ?thesis by simp
qed

lemma list_all_tool_cong:
  "map btype bs = map btype cs \<Longrightarrow> list_all isToolBlock bs = list_all isToolBlock cs"
proof -
  assume a: "map btype bs = map btype cs"
  have "list_all isToolBlock xs = list_all (\<lambda>t. t = Some ''tool_result'' \<or> t = Some ''tool_use'') (map btype xs)" for xs
    by (induction xs) (auto simp: isToolBlock_def hasType_def)
  with a show ?thesis by simp
qed

lemma appendLastText_filter_nonempty:
  "list_ex (hasType ''text'') bs \<Longrightarrow> filter (hasType ''text'') (appendLastText e bs) \<noteq> []"
  using list_ex_hasType_cong[OF appendLastText_btype, of "''text''" e bs]
  by (auto simp: list_ex_iff filter_empty_conv)

lemma appendLastText_join:
  "list_ex (hasType ''text'') bs \<Longrightarrow>
   join sep (map blockText (filter (hasType ''text'') (appendLastText e bs)))
   = join sep (map blockText (filter (hasType ''text'') bs)) @ e"
proof (induction bs)
  case Nil then show ?case by simp
next
  case (Cons b bs)
  show ?case
  proof (cases "list_ex (hasType ''text'') bs")
    case True
    then have ne: "filter (hasType ''text'') (appendLastText e bs) \<noteq> []"
        "filter (hasType ''text'') bs \<noteq> []"
      using appendLastText_filter_nonempty by (auto simp: list_ex_iff filter_empty_conv)
    with True Cons.IH show ?thesis by (simp add: join_Cons)
  next
    case False
    then have "filter (hasType ''text'') bs = []" by (auto simp: list_ex_iff filter_empty_conv)
    moreover from False Cons.prems have "hasType ''text'' b" by simp
    moreover from this have "hasType ''text'' (Block (btype b) (Some (blockText b @ e)))"
      by (simp add: hasType_def)
    ultimately show ?thesis using False by (simp add: blockText_def)
  qed
qed
lemma passedOver_appendText:
  assumes "\<not> passedOver m"
  shows "extractSingleMessageText (appendText e m) = extractSingleMessageText m @ e"
    and "hasToolBlock (appendText e m) = hasToolBlock m"
    and "hasToolResult (appendText e m) = hasToolResult m"
    and "\<not> passedOver (appendText e m)"
proof -
  have ne: "\<not> list_all isWhiteSpace (extractSingleMessageText m)"
    using assms by (simp add: passedOver_def trim_Nil_iff)
  show 1: "extractSingleMessageText (appendText e m) = extractSingleMessageText m @ e"
  proof (cases "content m")
    case (CStr s) then show ?thesis by (simp add: extractSingleMessageText_def appendText_def)
  next
    case (CBlocks bs)
    have "list_ex (hasType ''text'') bs"
    proof (rule ccontr)
      assume "\<not> list_ex (hasType ''text'') bs"
      then have "filter (hasType ''text'') bs = []" by (auto simp: list_ex_iff filter_empty_conv)
      with CBlocks ne show False by (simp add: extractSingleMessageText_def)
    qed
    then show ?thesis using CBlocks appendLastText_join[of bs "'' ''" e]
      by (simp add: extractSingleMessageText_def appendText_def)
  next
    case COther
    with ne show ?thesis by (simp add: extractSingleMessageText_def)
  qed
  show "hasToolBlock (appendText e m) = hasToolBlock m"
    using list_ex_tool_cong[OF appendLastText_btype]
    by (cases "content m") (simp_all add: hasToolBlock_def appendText_def)
  show "hasToolResult (appendText e m) = hasToolResult m"
    using list_ex_hasType_cong[OF appendLastText_btype]
    by (cases "content m") (simp_all add: hasToolResult_def appendText_def)
  have "isOnlyToolResult (appendText e m) = isOnlyToolResult m"
    using list_ex_hasType_cong[OF appendLastText_btype] list_all_tool_cong[OF appendLastText_btype]
    by (cases "content m") (simp_all add: isOnlyToolResult_def appendText_def)
  moreover have "\<not> list_all isWhiteSpace (extractSingleMessageText m @ e)" using ne by simp
  ultimately show "\<not> passedOver (appendText e m)"
    using assms 1 by (simp add: passedOver_def trim_Nil_iff)
qed

lemma scanBack_passedOver: "list_all passedOver xs \<Longrightarrow> scanBack (xs @ ys) = scanBack ys"
  by (induction xs) (auto simp: passedOver_def Let_def)

lemma scanBack_current: "\<not> passedOver m \<Longrightarrow> scanBack (m # ys) = extractSingleMessageText m"
  by (auto simp: passedOver_def Let_def)

lemma findLastUserText_current:
  "list_all passedOver post \<Longrightarrow> \<not> passedOver m \<Longrightarrow>
   findLastUserText (pre @ m # post) = extractSingleMessageText m"
  by (simp add: findLastUserText_def scanBack_passedOver scanBack_current del: scanBack.simps)

lemma recentToolResults_cong:
  "map hasToolResult xs = map hasToolResult ys \<Longrightarrow> recentToolResults xs = recentToolResults ys"
proof -
  assume a: "map hasToolResult xs = map hasToolResult ys"
  have "recentToolResults zs = length (filter id (drop (length (map hasToolResult zs) - 6) (map hasToolResult zs)))" for zs
    unfolding recentToolResults_def recentMessages_def
    by (simp add: drop_map filter_map comp_def)
  moreover from a have "length xs = length ys" by (rule map_eq_imp_length_eq)
  ultimately show ?thesis using a by simp
qed

lemma hasTools_cong:
  "map hasToolBlock xs = map hasToolBlock ys \<Longrightarrow> hasTools xs t = hasTools ys t"
proof -
  assume a: "map hasToolBlock xs = map hasToolBlock ys"
  have "list_ex hasToolBlock zs = list_ex id (map hasToolBlock zs)" for zs
    by (induction zs) auto
  with a show ?thesis by (simp add: hasTools_def)
qed

lemma tier_mono:
  "complexityScore ms t s \<le> complexityScore ms' t' s' \<Longrightarrow>
   tierRank (classifyComplexity ms t s) \<le> tierRank (classifyComplexity ms' t' s')"
  by (simp add: classifyComplexity_def Let_def)
section \<open>Claims about the classifier\<close>

text \<open>
  Claim C2. The tier is fixed by the score alone: a score of 5 or more gives \<open>Complex\<close>,
  a score of exactly 3 or 4 gives \<open>Moderate\<close>, and a score below 3 (so also exactly 2)
  gives \<open>Simple\<close>, for every history, tool list and system prompt.
\<close>
theorem classifyComplexity_thresholds:
  "(5 \<le> complexityScore m t s \<longrightarrow> classifyComplexity m t s = Complex) \<and>
   (complexityScore m t s = 3 \<or> complexityScore m t s = 4 \<longrightarrow>
      classifyComplexity m t s = Moderate) \<and>
   (complexityScore m t s < 3 \<longrightarrow> classifyComplexity m t s = Simple)"
  by (auto simp: classifyComplexity_def)

text \<open>Requests with the scores 5, 4, 3 and 2.\<close>
lemma score_examples:
  "complexityScore [userText ''calculate and analyze it''] (Some (JArr [JNull])) None = 5"
  "complexityScore [userText ''analyze and implement it''] (Some (JArr [JNull])) None = 4"
  "complexityScore [userText ''analyze this codebase''] (Some (JArr [JNull])) None = 3"
  "complexityScore [userText ''fix this bug''] (Some (JArr [JNull])) None = 2"
  by code_simp+

text \<open>The four boundary scores 5, 4, 3 and 2, each reached by a request.\<close>
theorem classifyComplexity_thresholds_witness:
  "complexityScore [userText ''calculate and analyze it''] (Some (JArr [JNull])) None = 5 \<and>
   classifyComplexity [userText ''calculate and analyze it''] (Some (JArr [JNull])) None = Complex \<and>
   complexityScore [userText ''analyze and implement it''] (Some (JArr [JNull])) None = 4 \<and>
   classifyComplexity [userText ''analyze and implement it''] (Some (JArr [JNull])) None = Moderate \<and>
   complexityScore [userText ''analyze this codebase''] (Some (JArr [JNull])) None = 3 \<and>
   classifyComplexity [userText ''analyze this codebase''] (Some (JArr [JNull])) None = Moderate \<and>
   complexityScore [userText ''fix this bug''] (Some (JArr [JNull])) None = 2 \<and>
   classifyComplexity [userText ''fix this bug''] (Some (JArr [JNull])) None = Simple"
  using classifyComplexity_thresholds[of "[userText ''calculate and analyze it'']" "Some (JArr [JNull])" None]
        classifyComplexity_thresholds[of "[userText ''analyze and implement it'']" "Some (JArr [JNull])" None]
        classifyComplexity_thresholds[of "[userText ''analyze this codebase'']" "Some (JArr [JNull])" None]
        classifyComplexity_thresholds[of "[userText ''fix this bug'']" "Some (JArr [JNull])" None]
  by (simp add: score_examples)

text \<open>
  Claim C6, as stated, fails: the single message holding the fenced \<open>const x = 1;\<close>, with
  no tools and no system prompt, is not classified \<open>Moderate\<close>.
\<close>
theorem fence_scenario_not_moderate:
  "classifyComplexity [Message (CStr fenceText) (Some ''user'')] None None \<noteq> Moderate"
  unfolding fenceText_def by code_simp

text \<open>
  Claim C6, amended. For a single message whose text is the fenced \<open>const x = 1;\<close>
  (as a string content or as one text block, whatever its role), with no tools and no
  system prompt, the code-pattern signal alone gives the score 2, and the tier is
  \<open>Simple\<close>, since \<open>Moderate\<close> starts at 3.
\<close>
theorem fence_scenario_simple:
  "complexityScore [Message (CStr fenceText) r] None None = 2 \<and>
   classifyComplexity [Message (CStr fenceText) r] None None = Simple \<and>
   complexityScore [Message (CBlocks [Block (Some ''text'') (Some fenceText)]) r] None None = 2 \<and>
   classifyComplexity [Message (CBlocks [Block (Some ''text'') (Some fenceText)]) r] None None = Simple"
  unfolding fenceText_def by code_simp

text \<open>
  Claim C5, as stated, fails: a history of one message that holds three \<open>tool_result\<close>
  blocks has three such blocks among its last six messages, yet nothing is added for
  recent tool activity: the score is 2, the tool-presence signal alone.
\<close>
theorem recent_tool_blocks_counterexample:
  "3 \<le> recentToolResultBlocks [toolResultMessage 3] \<and>
   recentToolSignal [toolResultMessage 3] = 0 \<and>
   complexityScore [toolResultMessage 3] None None = 2"
  by code_simp

text \<open>
  Claim C5, amended. The recent-activity signal counts messages, not blocks: the score
  is the sum of the other signals plus exactly 1 when three or more of the last six
  messages contain at least one \<open>tool_result\<close> block, and plus 0 otherwise. The signal is
  a function of the last six messages: messages earlier than those contribute nothing.
\<close>
theorem recent_tool_signal_counts_messages:
  "complexityScore messages bodyTools system =
     turnSignals (toLowerCase (findLastUserText messages))
     + toolSignals messages bodyTools
     + (if 3 \<le> card {i. i < length messages \<and> length messages \<le> i + 6
                          \<and> hasToolResult (messages ! i)} then 1 else 0)
     + systemSignals system
   \<and> recentToolSignal messages = recentToolSignal (recentMessages messages)
   \<and> (length recent = 6 \<longrightarrow> recentToolSignal (earlier @ recent) = recentToolSignal recent)"
proof -
  have "recentMessages (recentMessages messages) = recentMessages messages"
    by (simp add: recentMessages_def)
  moreover have "length recent = 6 \<Longrightarrow> recentMessages (earlier @ recent) = recent"
    by (simp add: recentMessages_def)
  moreover have "length recent = 6 \<Longrightarrow> recentMessages recent = recent"
    by (simp add: recentMessages_def)
  ultimately show ?thesis
    by (simp add: complexityScore_def recentToolSignal_def bump_def recent_count
        recentToolResults_def)
qed

text \<open>Six recent tool-result messages give the signal whatever precedes them, and four
  tool-result messages followed by six plain ones give none.\<close>
theorem recent_tool_signal_counts_messages_witness:
  "length (replicate 6 (toolResultMessage 1)) = 6 \<and>
   recentToolSignal (replicate 4 (toolResultMessage 1) @ replicate 6 (userText ''ok'')) = 0 \<and>
   recentToolSignal (replicate 6 (userText ''ok'') @ replicate 6 (toolResultMessage 1)) = 1 \<and>
   recentToolSignal (replicate 6 (toolResultMessage 1)) = 1"
proof -
  have 1: "recentToolSignal (replicate 6 (toolResultMessage 1)) = 1" by code_simp
  have 2: "recentToolSignal (replicate 6 (userText ''ok'')) = 0" by code_simp
  have 3: "length (replicate 6 (toolResultMessage 1)) = 6" "length (replicate 6 (userText ''ok'')) = 6" by simp_all
  show ?thesis
    using recent_tool_signal_counts_messages[of _ _ _ "replicate 6 (toolResultMessage 1)" "replicate 6 (userText ''ok'')"]
      recent_tool_signal_counts_messages[of _ _ _ "replicate 6 (userText ''ok'')" "replicate 4 (toolResultMessage 1)"]
      1 2 3 by simp
qed

text \<open>
  Claim C9. Let \<open>m\<close> be the current-turn message of a history (every later message is
  passed over by \<open>findLastUserText\<close>, \<open>m\<close> is not). Appending any text to the text of \<open>m\<close>
  (a code fence, a keyword, or enough characters to pass a token threshold), with the
  rest of the history, the tools and the system prompt unchanged, never decreases the
  score nor the tier.
\<close>
theorem score_monotone_in_current_text:
  assumes "list_all passedOver post" and "\<not> passedOver m"
  shows "complexityScore (pre @ m # post) bodyTools system
           \<le> complexityScore (pre @ appendText extra m # post) bodyTools system
       \<and> tierRank (classifyComplexity (pre @ m # post) bodyTools system)
           \<le> tierRank (classifyComplexity (pre @ appendText extra m # post) bodyTools system)"
proof -
  let ?m' = "appendText extra m"
  note ext = passedOver_appendText[OF assms(2), of extra]
  have t: "findLastUserText (pre @ m # post) = extractSingleMessageText m"
    using assms by (rule findLastUserText_current)
  have t': "findLastUserText (pre @ ?m' # post) = extractSingleMessageText m @ extra"
    using findLastUserText_current[OF assms(1) ext(4), of pre] ext(1) by simp
  have turn: "turnSignals (toLowerCase (findLastUserText (pre @ m # post)))
              \<le> turnSignals (toLowerCase (findLastUserText (pre @ ?m' # post)))"
    unfolding t t' toLowerCase_def map_append by (rule turnSignals_append)
  have tools: "toolSignals (pre @ ?m' # post) bodyTools = toolSignals (pre @ m # post) bodyTools"
    unfolding toolSignals_def using hasTools_cong[of "pre @ ?m' # post" "pre @ m # post" bodyTools] ext(2)
    by simp
  have recent: "recentToolSignal (pre @ ?m' # post) = recentToolSignal (pre @ m # post)"
    unfolding recentToolSignal_def
    using recentToolResults_cong[of "pre @ ?m' # post" "pre @ m # post"] ext(3) by simp
  have score: "complexityScore (pre @ m # post) bodyTools system
           \<le> complexityScore (pre @ ?m' # post) bodyTools system"
    unfolding complexityScore_def Let_def tools recent using turn by simp
  from score tier_mono[OF score] show ?thesis by simp
qed

text \<open>Appending a fence and the keyword \<open>review\<close> to the current turn of an agentic
  history raises the score from 2 to 5.\<close>
theorem score_monotone_in_current_text_witness:
  "list_all passedOver [toolResultMessage 1] \<and> \<not> passedOver (userText ''please look at this'') \<and>
   complexityScore [userText ''please look at this'', toolResultMessage 1] None None = 2 \<and>
   complexityScore [appendText '' ``` and review it'' (userText ''please look at this''), toolResultMessage 1] None None = 5 \<and>
   classifyComplexity [userText ''please look at this'', toolResultMessage 1] None None = Simple \<and>
   classifyComplexity [appendText '' ``` and review it'' (userText ''please look at this''), toolResultMessage 1] None None = Complex"
proof -
  have h1: "list_all passedOver [toolResultMessage 1]" by code_simp
  have h2: "\<not> passedOver (userText ''please look at this'')" by code_simp
  have v: "complexityScore [userText ''please look at this'', toolResultMessage 1] None None = 2"
    "complexityScore [appendText '' ``` and review it'' (userText ''please look at this''), toolResultMessage 1] None None = 5"
    "classifyComplexity [userText ''please look at this'', toolResultMessage 1] None None = Simple"
    "classifyComplexity [appendText '' ``` and review it'' (userText ''please look at this''), toolResultMessage 1] None None = Complex"
    by code_simp+
  show ?thesis
    using score_monotone_in_current_text[OF h1 h2, of "[]" None None "'' ``` and review it''"] h1 h2 v
    by simp
qed
section \<open>Properties of the streaming code\<close>

subsection \<open>The writer\<close>

lemma wireText_done: "wireText sfy (dataMessage (JStr ''[DONE]'')) = doneFrame"
  by (simp add: wireText_def dataMessage_def truthyString_def doneFrame_def)

lemma closed_close: "closed (close sfy w)"
  by (simp add: close_def Let_def)

lemma close_closed: "closed w \<Longrightarrow> close sfy w = w"
  by (simp add: close_def)

subsection \<open>The aggregator\<close>

lemma fromChoice_delta:
  "fromChoice (JObj [(''delta'', JObj [(''content'', JStr f)])]) acc
   = Inr (acc\<lparr>agg_content := agg_content acc @ f\<rparr>)"
  by (simp add: fromChoice_def getProp_def isObjectValue_def nonEmptyString_def)

lemma aggregateChunk_delta:
  "aggregateChunk numAdd (deltaChunk f) acc = Inr (acc\<lparr>agg_content := agg_content acc @ f\<rparr>)"
  by (simp add: aggregateChunk_def deltaChunk_def fromChoice_delta fromUsage_def
      getProp_def isObjectValue_def nonEmptyString_def)

lemma aggregateLoop_delta:
  "aggregateLoop numAdd (map deltaChunk frags) acc
   = Inr (acc\<lparr>agg_content := agg_content acc @ concat frags\<rparr>)"
  by (induction frags arbitrary: acc) (simp_all add: aggregateChunk_delta)

subsection \<open>Lines and the relay loops\<close>

lemma splitOn_nonempty: "splitOn d s \<noteq> []"
  by (induction s) (auto split: list.splits)

lemma splitOn_append_sep: "splitOn d (xs @ d # ys) = splitOn d xs @ splitOn d ys"
proof (induction xs)
  case Nil
  then show ?case by simp
next
  case (Cons c xs)
  show ?case
  proof (cases "c = d")
    case True
    then show ?thesis using Cons by simp
  next
    case False
    obtain l ls where s: "splitOn d xs = l # ls" using splitOn_nonempty[of d xs] by (cases "splitOn d xs") auto
    with False Cons show ?thesis by simp
  qed
qed

lemma splitOn_no_sep: "d \<notin> set xs \<Longrightarrow> splitOn d xs = [xs]"
  by (induction xs) auto

lemma last_splitOn_boundary:
  "atLineStart (a @ r) \<Longrightarrow> atLineStart (last (splitOn CHR ''\<newline>'' a) @ r)"
proof (cases "r = []")
  case False
  assume "atLineStart (a @ r)"
  with False show ?thesis by (simp add: atLineStart_def)
next
  case True
  assume b: "atLineStart (a @ r)"
  show ?thesis
  proof (cases "a = []")
    case True
    with \<open>r = []\<close> show ?thesis by (simp add: atLineStart_def)
  next
    case False
    with b \<open>r = []\<close> have "a = butlast a @ [CHR ''\<newline>'']"
      by (simp add: atLineStart_def) (metis append_butlast_last_id)
    then have "splitOn CHR ''\<newline>'' a = splitOn CHR ''\<newline>'' (butlast a) @ [ [] ]"
      using splitOn_append_sep[of "CHR ''\<newline>''" "butlast a" "[]"] by simp
    with \<open>r = []\<close> show ?thesis by (simp add: atLineStart_def)
  qed
qed

lemma forLines_append:
  "forLines parse sfy (ls1 @ ls2) st =
     (case forLines parse sfy ls1 st of Return s \<Rightarrow> Return s | Next s \<Rightarrow> forLines parse sfy ls2 s)"
  by (induction ls1 arbitrary: st) (auto simp: Let_def split: option.splits prod.splits)

lemma forLines_inert: "inertLine parse line \<Longrightarrow> forLines parse sfy (line # rest) st = forLines parse sfy rest st"
  by (auto simp: inertLine_def Let_def)

lemma forLines_drop_inert:
  "inertLine parse line \<Longrightarrow> forLines parse sfy (ls1 @ line # ls2) st = forLines parse sfy (ls1 @ ls2) st"
  by (simp add: forLines_append forLines_inert del: forLines.simps split: flow.splits)

lemma forLines_keeps:
  "forLines parse sfy ls st = Next st' \<Longrightarrow> st_buffer st' = st_buffer st \<and> st_ttftMs st' = st_ttftMs st"
proof (induction ls arbitrary: st)
  case Nil then show ?case by simp
next
  case (Cons l ls)
  then show ?case
    by (auto simp: Let_def pushChunk_def split: if_splits option.splits prod.splits)
qed

lemma forLines_Return_closed:
  "forLines parse sfy ls st = Return st' \<Longrightarrow> closed (st_writer st')"
proof (induction ls arbitrary: st)
  case Nil then show ?case by simp
next
  case (Cons l ls)
  show ?case
  proof (cases "inertLine parse l")
    case True
    with Cons show ?thesis by (simp add: forLines_inert del: forLines.simps)
  next
    case False
    then obtain parsed where p: "prefix ''data: '' l" "drop 6 l \<noteq> ''[DONE]''" "parse (drop 6 l) = Some parsed"
      by (auto simp: inertLine_def)
    obtain b w where w: "writeMessage sfy (dataMessage parsed) (st_writer (pushChunk parsed st)) = (b, w)"
      by (cases "writeMessage sfy (dataMessage parsed) (st_writer (pushChunk parsed st))")
    show ?thesis
    proof (cases b)
      case True
      with Cons p w show ?thesis by (simp add: Let_def)
    next
      case False
      then have "closed w" using w
        by (auto simp: writeMessage_def split: if_splits prod.splits)
      with Cons.prems p w False show ?thesis by (auto simp: Let_def)
    qed
  qed
qed
lemma lines_with_inert:
  assumes nl: "CHR ''\<newline>'' \<notin> set line" and b: "atLineStart t"
  shows "\<exists>A. splitOn CHR ''\<newline>'' (t @ line @ CHR ''\<newline>'' # s2) = A @ line # splitOn CHR ''\<newline>'' s2
           \<and> splitOn CHR ''\<newline>'' (t @ s2) = A @ splitOn CHR ''\<newline>'' s2"
proof (cases "t = []")
  case True
  have "splitOn CHR ''\<newline>'' (line @ CHR ''\<newline>'' # s2) = [line] @ splitOn CHR ''\<newline>'' s2"
    using splitOn_append_sep[of "CHR ''\<newline>''" line s2] splitOn_no_sep[OF nl] by simp
  with True show ?thesis by simp
next
  case False
  with b have t: "t = butlast t @ [CHR ''\<newline>'']"
    by (simp add: atLineStart_def) (metis append_butlast_last_id)
  let ?A = "splitOn CHR ''\<newline>'' (butlast t)"
  have 1: "splitOn CHR ''\<newline>'' (t @ s2) = ?A @ splitOn CHR ''\<newline>'' s2"
    using splitOn_append_sep[of "CHR ''\<newline>''" "butlast t" s2] t
    by (metis append.assoc append_Cons append_Nil)
  have "splitOn CHR ''\<newline>'' (t @ line @ CHR ''\<newline>'' # s2)
        = ?A @ splitOn CHR ''\<newline>'' (line @ CHR ''\<newline>'' # s2)"
    using splitOn_append_sep[of "CHR ''\<newline>''" "butlast t" "line @ CHR ''\<newline>'' # s2"] t
    by (metis append.assoc append_Cons append_Nil)
  also have "splitOn CHR ''\<newline>'' (line @ CHR ''\<newline>'' # s2) = line # splitOn CHR ''\<newline>'' s2"
    using splitOn_append_sep[of "CHR ''\<newline>''" line s2] splitOn_no_sep[OF nl] by simp
  finally show ?thesis using 1 by blast
qed

lemma readLoop_chunk_drop_inert:
  assumes i: "inertLine parse line" and nl: "CHR ''\<newline>'' \<notin> set line"
    and b: "atLineStart (st_buffer st @ s1)"
  shows "readLoop parse sfy t0 (Chunk now (s1 @ line @ CHR ''\<newline>'' # s2) # post) st
       = readLoop parse sfy t0 (Chunk now (s1 @ s2) # post) st"
proof -
  let ?st1 = "if st_ttftMs st = None then st\<lparr>st_ttftMs := Some (now - t0)\<rparr> else st"
  have buf: "st_buffer ?st1 = st_buffer st" by simp
  obtain A where A:
    "splitOn CHR ''\<newline>'' ((st_buffer st @ s1) @ line @ CHR ''\<newline>'' # s2) = A @ line # splitOn CHR ''\<newline>'' s2"
    "splitOn CHR ''\<newline>'' ((st_buffer st @ s1) @ s2) = A @ splitOn CHR ''\<newline>'' s2"
    using lines_with_inert[OF nl b] by blast
  have ne: "splitOn CHR ''\<newline>'' s2 \<noteq> []" by (rule splitOn_nonempty)
  have l: "last (A @ line # splitOn CHR ''\<newline>'' s2) = last (A @ splitOn CHR ''\<newline>'' s2)"
    using ne by simp
  have bl: "butlast (A @ line # splitOn CHR ''\<newline>'' s2) = A @ line # butlast (splitOn CHR ''\<newline>'' s2)"
       "butlast (A @ splitOn CHR ''\<newline>'' s2) = A @ butlast (splitOn CHR ''\<newline>'' s2)"
    using ne by (simp_all add: butlast_append)
  show ?thesis
    using A l bl forLines_drop_inert[OF i, of sfy A]
    by (simp add: Let_def buf del: forLines.simps)
qed

lemma readLoop_drop_inert:
  assumes i: "inertLine parse line" and nl: "CHR ''\<newline>'' \<notin> set line"
    and b: "atLineStart (st_buffer st @ concat (map textOf pre) @ s1)"
  shows "readLoop parse sfy t0 (pre @ Chunk now (s1 @ line @ CHR ''\<newline>'' # s2) # post) st
       = readLoop parse sfy t0 (pre @ Chunk now (s1 @ s2) # post) st"
  using b
proof (induction pre arbitrary: st)
  case Nil
  then show ?case using readLoop_chunk_drop_inert[OF i nl] by simp
next
  case (Cons a pre)
  show ?case
  proof (cases a)
    case (Chunk n x)
    let ?st1 = "if st_ttftMs st = None then st\<lparr>st_ttftMs := Some (n - t0)\<rparr> else st"
    let ?lines = "splitOn CHR ''\<newline>'' (st_buffer ?st1 @ x)"
    let ?st2 = "?st1\<lparr>st_buffer := last ?lines\<rparr>"
    show ?thesis
    proof (cases "forLines parse sfy (butlast ?lines) ?st2")
      case (Return st3)
      with Chunk show ?thesis by (simp add: Let_def del: forLines.simps)
    next
      case (Next st3)
      then have "st_buffer st3 = last (splitOn CHR ''\<newline>'' (st_buffer st @ x))"
        using forLines_keeps[OF Next] by simp
      moreover have "atLineStart (last (splitOn CHR ''\<newline>'' (st_buffer st @ x)) @ concat (map textOf pre) @ s1)"
        using Cons.prems Chunk last_splitOn_boundary[of "st_buffer st @ x" "concat (map textOf pre) @ s1"]
        by simp
      ultimately have "atLineStart (st_buffer st3 @ concat (map textOf pre) @ s1)" by simp
      from Cons.IH[OF this] Next Chunk show ?thesis by (simp add: Let_def del: forLines.simps)
    qed
  next
    case (ReadThrows e)
    then show ?thesis by simp
  next
    case ClientClose
    with Cons show ?thesis by simp
  qed
qed

lemma relay_drop_inert:
  assumes "inertLine parse line" and "CHR ''\<newline>'' \<notin> set line"
    and "atLineStart (concat (map textOf pre) @ s1)"
  shows "streamProviderResponse parse sfy t0
           (Fetched (resp\<lparr>body := Some (pre @ Chunk now (s1 @ line @ CHR ''\<newline>'' # s2) # post)\<rparr>)) w
       = streamProviderResponse parse sfy t0
           (Fetched (resp\<lparr>body := Some (pre @ Chunk now (s1 @ s2) # post)\<rparr>)) w"
  using readLoop_drop_inert[OF assms(1,2), where pre=pre and ?s1.0=s1] assms(3)
  by (simp add: streamProviderResponse_def ok_def Let_def)

text \<open>The same for a line that arrives spread over several reads.\<close>

lemma forLines_buffer:
  "forLines parse sfy ls (st\<lparr>st_buffer := x\<rparr>) =
     (case forLines parse sfy ls st of
        Return s \<Rightarrow> Return (s\<lparr>st_buffer := x\<rparr>)
      | Next s \<Rightarrow> Next (s\<lparr>st_buffer := x\<rparr>))"
proof (induction ls arbitrary: st)
  case Nil then show ?case by simp
next
  case (Cons l ls)
  show ?case
  proof (cases "inertLine parse l")
    case True
    with Cons show ?thesis by (simp add: forLines_inert del: forLines.simps)
  next
    case False
    then obtain parsed where p: "prefix ''data: '' l" "drop 6 l \<noteq> ''[DONE]''" "parse (drop 6 l) = Some parsed"
      by (auto simp: inertLine_def)
    obtain b w where w: "writeMessage sfy (dataMessage parsed) (st_writer st) = (b, w)"
      by (cases "writeMessage sfy (dataMessage parsed) (st_writer st)")
    have L: "forLines parse sfy (l # ls) s =
          (if b then forLines parse sfy ls ((pushChunk parsed s)\<lparr>st_writer := w\<rparr>)
           else Return ((pushChunk parsed s)\<lparr>st_writer := w\<rparr>))"
      if "st_writer s = st_writer st" for s
    proof -
      have "st_writer (pushChunk parsed s) = st_writer st" using that by (simp add: pushChunk_def)
      with p w show ?thesis by (simp add: Let_def)
    qed
    have e: "(pushChunk parsed (st\<lparr>st_buffer := x\<rparr>))\<lparr>st_writer := w\<rparr>
             = ((pushChunk parsed st)\<lparr>st_writer := w\<rparr>)\<lparr>st_buffer := x\<rparr>"
      by (simp add: pushChunk_def)
    have "forLines parse sfy (l # ls) (st\<lparr>st_buffer := x\<rparr>) =
          (if b then forLines parse sfy ls (((pushChunk parsed st)\<lparr>st_writer := w\<rparr>)\<lparr>st_buffer := x\<rparr>)
           else Return (((pushChunk parsed st)\<lparr>st_writer := w\<rparr>)\<lparr>st_buffer := x\<rparr>))"
      using L[of "st\<lparr>st_buffer := x\<rparr>"] e by simp
    then show ?thesis
      unfolding L[of st, OF refl] Cons.IH by (cases b) simp_all
  qed
qed

lemma catchBlock_buffer: "catchBlock sfy e (st\<lparr>st_buffer := x\<rparr>) = catchBlock sfy e st"
  by (simp add: catchBlock_def)

lemma readLoop_partial_line:
  assumes i: "inertLine parse line" and nl: "CHR ''\<newline>'' \<notin> set line"
  shows "p @ concat (map textOf mid) @ b = line \<Longrightarrow>
       readLoop parse sfy t0 (mid @ Chunk now (b @ CHR ''\<newline>'' # s2) # post) (st\<lparr>st_buffer := p\<rparr>)
       = readLoop parse sfy t0 (map blank mid @ Chunk now s2 # post) (st\<lparr>st_buffer := []\<rparr>)"
proof (induction mid arbitrary: p st)
  case Nil
  have "splitOn CHR ''\<newline>'' (p @ b @ CHR ''\<newline>'' # s2)
        = splitOn CHR ''\<newline>'' ((p @ b) @ CHR ''\<newline>'' # s2)" by simp
  also have "\<dots> = splitOn CHR ''\<newline>'' (p @ b) @ splitOn CHR ''\<newline>'' s2"
    by (rule splitOn_append_sep)
  also have "splitOn CHR ''\<newline>'' (p @ b) = [line]"
    using Nil splitOn_no_sep[OF nl] by simp
  finally have l: "splitOn CHR ''\<newline>'' (p @ b @ CHR ''\<newline>'' # s2) = line # splitOn CHR ''\<newline>'' s2"
    by simp
  have ne: "splitOn CHR ''\<newline>'' s2 \<noteq> []" by (rule splitOn_nonempty)
  show ?case using l ne forLines_inert[OF i]
    by (simp add: Let_def del: forLines.simps)
next
  case (Cons a mid)
  show ?case
  proof (cases a)
    case (Chunk n x)
    with Cons.prems have "CHR ''\<newline>'' \<notin> set (p @ x)" using nl by auto
    then have s: "splitOn CHR ''\<newline>'' (p @ x) = [p @ x]" by (rule splitOn_no_sep)
    have "(p @ x) @ concat (map textOf mid) @ b = line" using Cons.prems Chunk by simp
    from Cons.IH[OF this, of "if st_ttftMs st = None then st\<lparr>st_ttftMs := Some (n - t0)\<rparr> else st"]
      Chunk s show ?thesis
      by (cases "st_ttftMs st") (simp_all add: Let_def)
  next
    case (ReadThrows e)
    then show ?thesis using catchBlock_buffer by simp
  next
    case ClientClose
    let ?W = "onResponseClose (st_writer st)"
    let ?X = "Chunk now (b @ CHR ''\<newline>'' # s2) # post"
    let ?Y = "Chunk now s2 # post"
    from ClientClose Cons.prems have l: "p @ concat (map textOf mid) @ b = line" by simp
    have e: "(st\<lparr>st_buffer := q\<rparr>)\<lparr>st_writer := ?W\<rparr> = (st\<lparr>st_writer := ?W\<rparr>)\<lparr>st_buffer := q\<rparr>" for q
      by (cases st) simp
    have "readLoop parse sfy t0 ((a # mid) @ ?X) (st\<lparr>st_buffer := p\<rparr>)
          = readLoop parse sfy t0 (mid @ ?X) ((st\<lparr>st_buffer := p\<rparr>)\<lparr>st_writer := ?W\<rparr>)"
      using ClientClose by simp
    also have "\<dots> = readLoop parse sfy t0 (mid @ ?X) ((st\<lparr>st_writer := ?W\<rparr>)\<lparr>st_buffer := p\<rparr>)"
      by (simp only: e)
    also have "\<dots> = readLoop parse sfy t0 (map blank mid @ ?Y) ((st\<lparr>st_writer := ?W\<rparr>)\<lparr>st_buffer := []\<rparr>)"
      by (rule Cons.IH[OF l])
    also have "\<dots> = readLoop parse sfy t0 (map blank mid @ ?Y) ((st\<lparr>st_buffer := []\<rparr>)\<lparr>st_writer := ?W\<rparr>)"
      by (simp only: e)
    also have "\<dots> = readLoop parse sfy t0 (map blank (a # mid) @ ?Y) (st\<lparr>st_buffer := []\<rparr>)"
      using ClientClose by simp
    finally show ?thesis .
  qed
qed

lemma atLineStart_cases:
  "atLineStart t \<Longrightarrow> t = [] \<or> (\<exists>u. t = u @ [CHR ''\<newline>''])"
  unfolding atLineStart_def using append_butlast_last_id[of t] by metis

lemma lines_line_starts:
  assumes na: "CHR ''\<newline>'' \<notin> set a" and b: "atLineStart t"
  shows "\<exists>A. splitOn CHR ''\<newline>'' (t @ a) = A @ [a] \<and> splitOn CHR ''\<newline>'' t = A @ [ [] ]"
proof -
  from atLineStart_cases[OF b] show ?thesis
  proof
    assume "t = []"
    then show ?thesis using splitOn_no_sep[OF na] by simp
  next
    assume "\<exists>u. t = u @ [CHR ''\<newline>'']"
    then obtain u where u: "t = u @ [CHR ''\<newline>'']" by blast
    have "splitOn CHR ''\<newline>'' (u @ CHR ''\<newline>'' # a) = splitOn CHR ''\<newline>'' u @ [a]"
      using splitOn_append_sep[of "CHR ''\<newline>''" u a] splitOn_no_sep[OF na] by simp
    moreover have "splitOn CHR ''\<newline>'' (u @ CHR ''\<newline>'' # []) = splitOn CHR ''\<newline>'' u @ [ [] ]"
      using splitOn_append_sep[of "CHR ''\<newline>''" u "[]"] by simp
    ultimately show ?thesis unfolding u by simp
  qed
qed

lemma readLoop_line_starts:
  assumes i: "inertLine parse line" and nl: "CHR ''\<newline>'' \<notin> set line"
    and l: "a @ concat (map textOf mid) @ b = line"
    and bd: "atLineStart (st_buffer st @ s1)"
  shows "readLoop parse sfy t0 (Chunk n (s1 @ a) # mid @ Chunk now (b @ CHR ''\<newline>'' # s2) # post) st
       = readLoop parse sfy t0 (Chunk n s1 # map blank mid @ Chunk now s2 # post) st"
proof -
  have na: "CHR ''\<newline>'' \<notin> set a" using l nl by auto
  let ?st1 = "if st_ttftMs st = None then st\<lparr>st_ttftMs := Some (n - t0)\<rparr> else st"
  have buf: "st_buffer ?st1 = st_buffer st" by simp
  obtain A where A: "splitOn CHR ''\<newline>'' ((st_buffer st @ s1) @ a) = A @ [a]"
      "splitOn CHR ''\<newline>'' (st_buffer st @ s1) = A @ [ [] ]"
    using lines_line_starts[OF na bd] by blast
  have L: "readLoop parse sfy t0 (Chunk n (s1 @ a) # rest) st =
        (case forLines parse sfy A ?st1 of
           Return st3 \<Rightarrow> \<lparr>outcome = \<lparr>success = False, chunks = st_chunks st3, ttftMs = st_ttftMs st3\<rparr>,
                         sink = st_writer st3, calls = st_calls st3\<rparr>
         | Next st3 \<Rightarrow> readLoop parse sfy t0 rest (st3\<lparr>st_buffer := a\<rparr>))" for rest
    using A(1) by (simp add: Let_def buf forLines_buffer del: forLines.simps split: flow.splits)
  have R: "readLoop parse sfy t0 (Chunk n s1 # rest) st =
        (case forLines parse sfy A ?st1 of
           Return st3 \<Rightarrow> \<lparr>outcome = \<lparr>success = False, chunks = st_chunks st3, ttftMs = st_ttftMs st3\<rparr>,
                         sink = st_writer st3, calls = st_calls st3\<rparr>
         | Next st3 \<Rightarrow> readLoop parse sfy t0 rest (st3\<lparr>st_buffer := []\<rparr>))" for rest
    using A(2) by (simp add: Let_def buf forLines_buffer del: forLines.simps split: flow.splits)
  show ?thesis
    unfolding L R using readLoop_partial_line[OF i nl l]
    by (simp split: flow.splits)
qed

lemma readLoop_drop_inert_spread:
  assumes i: "inertLine parse line" and nl: "CHR ''\<newline>'' \<notin> set line"
    and l: "a @ concat (map textOf mid) @ b = line"
    and bd: "atLineStart (st_buffer st @ concat (map textOf pre) @ s1)"
  shows "readLoop parse sfy t0 (pre @ Chunk n (s1 @ a) # mid @ Chunk now (b @ CHR ''\<newline>'' # s2) # post) st
       = readLoop parse sfy t0 (pre @ Chunk n s1 # map blank mid @ Chunk now s2 # post) st"
  using bd
proof (induction pre arbitrary: st)
  case Nil
  then show ?case using readLoop_line_starts[OF i nl l] by simp
next
  case (Cons c pre)
  show ?case
  proof (cases c)
    case (Chunk m x)
    let ?st1 = "if st_ttftMs st = None then st\<lparr>st_ttftMs := Some (m - t0)\<rparr> else st"
    let ?lines = "splitOn CHR ''\<newline>'' (st_buffer ?st1 @ x)"
    let ?st2 = "?st1\<lparr>st_buffer := last ?lines\<rparr>"
    show ?thesis
    proof (cases "forLines parse sfy (butlast ?lines) ?st2")
      case (Return st3)
      with Chunk show ?thesis by (simp add: Let_def del: forLines.simps)
    next
      case (Next st3)
      then have "st_buffer st3 = last (splitOn CHR ''\<newline>'' (st_buffer st @ x))"
        using forLines_keeps[OF Next] by simp
      moreover have "atLineStart (last (splitOn CHR ''\<newline>'' (st_buffer st @ x)) @ concat (map textOf pre) @ s1)"
        using Cons.prems Chunk last_splitOn_boundary[of "st_buffer st @ x" "concat (map textOf pre) @ s1"]
        by simp
      ultimately have "atLineStart (st_buffer st3 @ concat (map textOf pre) @ s1)" by simp
      from Cons.IH[OF this] Next Chunk show ?thesis by (simp add: Let_def del: forLines.simps)
    qed
  next
    case (ReadThrows e)
    then show ?thesis by simp
  next
    case ClientClose
    with Cons show ?thesis by simp
  qed
qed

lemma relay_drop_inert_spread:
  assumes "inertLine parse line" and "CHR ''\<newline>'' \<notin> set line"
    and "a @ concat (map textOf mid) @ b = line"
    and "atLineStart (concat (map textOf pre) @ s1)"
  shows "streamProviderResponse parse sfy t0
           (Fetched (resp\<lparr>body := Some (pre @ Chunk n (s1 @ a) # mid @ Chunk now (b @ CHR ''\<newline>'' # s2) # post)\<rparr>)) w
       = streamProviderResponse parse sfy t0
           (Fetched (resp\<lparr>body := Some (pre @ Chunk n s1 # map blank mid @ Chunk now s2 # post)\<rparr>)) w"
  using readLoop_drop_inert_spread[OF assms(1,2,3), where pre=pre and ?s1.0=s1] assms(4)
  by (simp add: streamProviderResponse_def ok_def Let_def)


subsection \<open>The sink at the end of a call\<close>

lemma writeMessage_accepting:
  "accepting w \<Longrightarrow> fst (writeMessage sfy m w) \<and> accepting (snd (writeMessage sfy m w))"
  by (cases "faults (response w)") (auto simp: accepting_def writeMessage_def responseWrite_def)

lemma close_accepting: "accepting w \<Longrightarrow> terminated (close sfy w)"
  by (cases "faults (response w)")
     (auto simp: accepting_def terminated_def close_def Let_def writeMessage_def responseWrite_def
        responseEnd_def wireText_done)

lemma forLines_accepting:
  "accepting (st_writer st) \<Longrightarrow>
   \<exists>st'. forLines parse sfy ls st = Next st' \<and> accepting (st_writer st')"
proof (induction ls arbitrary: st)
  case Nil then show ?case by simp
next
  case (Cons l ls)
  show ?case
  proof (cases "inertLine parse l")
    case True
    with Cons show ?thesis by (simp add: forLines_inert del: forLines.simps)
  next
    case False
    then obtain parsed where p: "prefix ''data: '' l" "drop 6 l \<noteq> ''[DONE]''" "parse (drop 6 l) = Some parsed"
      by (auto simp: inertLine_def)
    let ?st1 = "pushChunk parsed st"
    have a: "accepting (st_writer ?st1)" using Cons.prems by (simp add: pushChunk_def)
    obtain b w where w: "writeMessage sfy (dataMessage parsed) (st_writer ?st1) = (b, w)"
      by (cases "writeMessage sfy (dataMessage parsed) (st_writer ?st1)")
    with writeMessage_accepting[OF a, of sfy "dataMessage parsed"] have bw: "b" "accepting w" by simp_all
    then have "accepting (st_writer (?st1\<lparr>st_writer := w\<rparr>))" by simp
    from Cons.IH[OF this] p w bw show ?thesis by (simp add: Let_def)
  qed
qed

lemma closed_catchBlock: "closed (sink (catchBlock sfy e st))"
  by (simp add: catchBlock_def Let_def closed_close)

lemma closed_afterLoop: "closed (sink (afterLoop parse sfy st))"
  by (simp add: afterLoop_def Let_def closed_close)

lemma closed_readLoop: "closed (sink (readLoop parse sfy t0 steps st))"
proof (induction steps arbitrary: st)
  case Nil then show ?case by (simp add: closed_afterLoop)
next
  case (Cons a steps)
  show ?case
  proof (cases a)
    case (Chunk n x)
    then show ?thesis using Cons.IH forLines_Return_closed
      by (auto simp: Let_def simp del: forLines.simps split: flow.splits)
  next
    case (ReadThrows e) then show ?thesis by (simp add: closed_catchBlock)
  next
    case ClientClose then show ?thesis using Cons.IH by simp
  qed
qed

lemma terminated_catchBlock: "accepting (st_writer st) \<Longrightarrow> terminated (sink (catchBlock sfy e st))"
  using writeMessage_accepting close_accepting by (simp add: catchBlock_def Let_def)

lemma terminated_afterLoop: "accepting (st_writer st) \<Longrightarrow> terminated (sink (afterLoop parse sfy st))"
  using writeMessage_accepting close_accepting
  by (auto simp: afterLoop_def Let_def pushChunk_def split: option.splits)

lemma terminated_readLoop:
  "accepting (st_writer st) \<Longrightarrow> ClientClose \<notin> set steps \<Longrightarrow>
   terminated (sink (readLoop parse sfy t0 steps st))"
proof (induction steps arbitrary: st)
  case Nil then show ?case by (simp add: terminated_afterLoop)
next
  case (Cons a steps)
  show ?case
  proof (cases a)
    case (Chunk n x)
    let ?st1 = "if st_ttftMs st = None then st\<lparr>st_ttftMs := Some (n - t0)\<rparr> else st"
    let ?lines = "splitOn CHR ''\<newline>'' (st_buffer ?st1 @ x)"
    let ?st2 = "?st1\<lparr>st_buffer := last ?lines\<rparr>"
    have "accepting (st_writer ?st2)" using Cons.prems(1) by simp
    from forLines_accepting[OF this, of parse sfy "butlast ?lines"]
    obtain st3 where s: "forLines parse sfy (butlast ?lines) ?st2 = Next st3" "accepting (st_writer st3)"
      by blast
    from Cons.IH[OF s(2)] Cons.prems(2) s(1) Chunk show ?thesis
      by (simp add: Let_def del: forLines.simps)
  next
    case (ReadThrows e) then show ?thesis using Cons.prems by (simp add: terminated_catchBlock)
  next
    case ClientClose then show ?thesis using Cons.prems by simp
  qed
qed

subsection \<open>A write that fails inside the loop over the lines\<close>

text \<open>Inside the loop over the complete lines, the relay returns at the first chunk
  whose write fails: the chunk is the last one collected, and neither the lines after it
  nor the reads after it are looked at.\<close>

lemma forLines_stops_at_failed_write:
  assumes "forLines parse sfy before st = Next st'"
    and "prefix ''data: '' line" and "drop 6 line \<noteq> ''[DONE]''"
    and "parse (drop 6 line) = Some parsed"
    and "\<not> fst (writeMessage sfy (dataMessage parsed) (st_writer st'))"
  shows "forLines parse sfy (before @ line # rest) st
         = Return (st'\<lparr>st_chunks := st_chunks st' @ [parsed],
                       st_calls := st_calls st' @ [OnChunk parsed],
                       st_writer := snd (writeMessage sfy (dataMessage parsed) (st_writer st'))\<rparr>)"
  using assms
  by (cases "writeMessage sfy (dataMessage parsed) (st_writer st')")
     (simp add: forLines_append Let_def pushChunk_def)


lemma readLoop_returns_at_failed_write:
  assumes "forLines parse sfy (butlast (splitOn CHR ''\<newline>'' (st_buffer st @ str)))
             ((if st_ttftMs st = None then st\<lparr>st_ttftMs := Some (now - t0)\<rparr> else st)
                \<lparr>st_buffer := last (splitOn CHR ''\<newline>'' (st_buffer st @ str))\<rparr>) = Return st3"
  shows "readLoop parse sfy t0 (Chunk now str # steps) st
         = \<lparr>outcome = \<lparr>success = False, chunks = st_chunks st3, ttftMs = st_ttftMs st3\<rparr>,
            sink = st_writer st3, calls = st_calls st3\<rparr>"
  using assms by (auto simp: Let_def simp del: forLines.simps split: if_splits)

subsection \<open>The whole call on a sink that accepts every write\<close>
















section \<open>Claims about the streaming code\<close>

text \<open>
  Claim C7. \<open>close\<close> is idempotent. The first call on an open writer emits exactly one
  \<open>[DONE]\<close> message (one call of \<open>response.write\<close>, with that message), ends the
  transport and leaves the writer closed; a second call changes nothing. So after two
  calls the transport has been handed exactly one \<open>[DONE]\<close> message more than before,
  the same as after one call. (The message reaches the client unless the transport
  throws on that very call.)
\<close>
theorem close_idempotent:
  "close sfy (close sfy w) = close sfy w
   \<and> closed (close sfy w)
   \<and> (\<not> closed w \<longrightarrow>
        writeCalls (response (close sfy w)) = writeCalls (response w) @ [doneFrame]
      \<and> ended (response (close sfy w))
      \<and> count_list (writeCalls (response (close sfy (close sfy w)))) doneFrame =
          count_list (writeCalls (response w)) doneFrame + 1
      \<and> written (response (close sfy w)) =
          (if fst (responseWrite doneFrame (response w)) then written (response w)
           else written (response w) @ [doneFrame]))"
proof -
  have 1: "close sfy (close sfy w) = close sfy w"
    using close_closed[OF closed_close] .
  have 2: "\<not> closed w \<Longrightarrow>
          writeCalls (response (close sfy w)) = writeCalls (response w) @ [doneFrame]"
    by (auto simp: close_def Let_def writeMessage_def wireText_done responseWrite_def responseEnd_def
        split: list.splits)
  have 3: "\<not> closed w \<Longrightarrow> written (response (close sfy w)) =
          (if fst (responseWrite doneFrame (response w)) then written (response w)
           else written (response w) @ [doneFrame])"
    by (auto simp: close_def Let_def writeMessage_def wireText_done responseWrite_def responseEnd_def
        split: list.splits)
  have 4: "\<not> closed w \<Longrightarrow> ended (response (close sfy w))"
    by (simp add: close_def Let_def responseEnd_def)
  show ?thesis unfolding 1 using 2 3 4 closed_close[of sfy w] by simp
qed

text \<open>On an open writer, one call and two calls of \<open>close\<close> both leave exactly one
  \<open>[DONE]\<close> message, on a transport that accepts it and on one that throws.\<close>
theorem close_idempotent_witness:
  "\<not> closed openWriter \<and> \<not> closed brokenPipeWriter
   \<and> close exampleStringify (close exampleStringify openWriter) = close exampleStringify openWriter
   \<and> close exampleStringify openWriter
       = \<lparr>response = \<lparr>writeCalls = [doneFrame], written = [doneFrame], ended = True,
                       faults = []\<rparr>, closed = True\<rparr>
   \<and> count_list (writeCalls (response (close exampleStringify (close exampleStringify openWriter))))
        doneFrame = 1
   \<and> close exampleStringify (close exampleStringify brokenPipeWriter)
       = \<lparr>response = \<lparr>writeCalls = [doneFrame], written = [], ended = True,
                       faults = []\<rparr>, closed = True\<rparr>"
proof -
  have o: "\<not> closed openWriter" "\<not> closed brokenPipeWriter"
    by (simp_all add: openWriter_def brokenPipeWriter_def createSSEWriter_def)
  have c: "close exampleStringify openWriter
       = \<lparr>response = \<lparr>writeCalls = [doneFrame], written = [doneFrame], ended = True,
                       faults = []\<rparr>, closed = True\<rparr>"
    "close exampleStringify brokenPipeWriter
       = \<lparr>response = \<lparr>writeCalls = [doneFrame], written = [], ended = True,
                       faults = []\<rparr>, closed = True\<rparr>"
    by (simp_all add: openWriter_def brokenPipeWriter_def createSSEWriter_def close_def Let_def
        writeMessage_def wireText_done responseWrite_def responseEnd_def)
  show ?thesis
    using close_idempotent[of exampleStringify openWriter]
      close_idempotent[of exampleStringify brokenPipeWriter] o c
    by simp
qed

text \<open>
  Claim C3. For every string \<open>S\<close> and every list of fragments whose concatenation is \<open>S\<close>,
  the chunks \<open>{choices: [{delta: {content: fragment}}]}\<close> built from the fragments
  aggregate to the content \<open>S\<close> (and nothing else is set): the result does not depend on
  how \<open>S\<close> is split.
\<close>
theorem aggregate_reconstructs_content:
  "concat fragments = S \<Longrightarrow>
   aggregateStreamingResponse numAdd (map deltaChunk fragments)
   = Inr \<lparr>agg_content = S, agg_usage = None, agg_model = None, agg_finish_reason = None\<rparr>"
  by (simp add: aggregateStreamingResponse_def aggregateLoop_delta)

text \<open>Two ways of splitting the same string, one with an empty fragment.\<close>
theorem aggregate_reconstructs_content_witness:
  "concat [''Hel'', ''lo, wor'', ''ld''] = ''Hello, world'' \<and>
   concat [''Hello'', [], '', '', ''world''] = ''Hello, world'' \<and>
   aggregateStreamingResponse (+) (map deltaChunk [''Hel'', ''lo, wor'', ''ld''])
     = Inr \<lparr>agg_content = ''Hello, world'', agg_usage = None, agg_model = None, agg_finish_reason = None\<rparr> \<and>
   aggregateStreamingResponse (+) (map deltaChunk [''Hello'', [], '', '', ''world''])
     = Inr \<lparr>agg_content = ''Hello, world'', agg_usage = None, agg_model = None, agg_finish_reason = None\<rparr>"
proof -
  have 1: "concat [''Hel'', ''lo, wor'', ''ld''] = ''Hello, world''" by simp
  have 2: "concat [''Hello'', [], '', '', ''world''] = ''Hello, world''" by simp
  show ?thesis
    using aggregate_reconstructs_content[OF 1] aggregate_reconstructs_content[OF 2] 1 2
    by simp
qed







text \<open>
  Claim C1, amended. On every return of \<open>streamProviderResponse\<close> (upstream status not
  successful, missing body, a thrown error, the client-disconnect return, or the
  successful end) the sink is in its closed state. The stream is terminated, with the
  transport ended and \<open>[DONE]\<close> as its last message, whenever the sink was open at the
  call, its transport accepts every write and the client does not disconnect during the
  call.
\<close>
theorem sink_closed_on_every_return:
  "closed (sink (streamProviderResponse parse sfy t0 upstream w))
   \<and> (accepting w \<and> clientStays upstream \<longrightarrow>
        terminated (sink (streamProviderResponse parse sfy t0 upstream w)))"
proof
  show "closed (sink (streamProviderResponse parse sfy t0 upstream w))"
    by (auto simp: streamProviderResponse_def Let_def closed_catchBlock closed_close closed_readLoop
        split: fetched.splits option.splits)
next
  show "accepting w \<and> clientStays upstream \<longrightarrow>
        terminated (sink (streamProviderResponse parse sfy t0 upstream w))"
  proof
    assume a: "accepting w \<and> clientStays upstream"
    show "terminated (sink (streamProviderResponse parse sfy t0 upstream w))"
    proof (cases upstream)
      case (FetchThrows e)
      with a show ?thesis by (simp add: streamProviderResponse_def terminated_catchBlock)
    next
      case (Fetched resp)
      show ?thesis
      proof (cases "ok resp")
        case False
        with Fetched a writeMessage_accepting close_accepting show ?thesis
          by (simp add: streamProviderResponse_def Let_def)
      next
        case True
        show ?thesis
        proof (cases "body resp")
          case None
          with True Fetched a close_accepting show ?thesis
            by (simp add: streamProviderResponse_def)
        next
          case (Some steps)
          with True Fetched a terminated_readLoop[of _ steps parse sfy t0] show ?thesis
            by (simp add: streamProviderResponse_def clientStays_def)
        qed
      qed
    qed
  qed
qed

text \<open>A read that throws after one chunk, and an upstream answer with status 500: both
  calls end with \<open>[DONE]\<close> on an ended transport.\<close>
theorem sink_closed_on_every_return_witness:
  "accepting openWriter
   \<and> clientStays (streaming [Chunk 5 ''data: 1\<newline>'', ReadThrows (ErrorObject ''socket hang up'')])
   \<and> clientStays (Fetched \<lparr>status = 500, body = None\<rparr>)
   \<and> streamProviderResponse exampleParse exampleStringify 0
        (streaming [Chunk 5 ''data: 1\<newline>'', ReadThrows (ErrorObject ''socket hang up'')]) openWriter
      = \<lparr>outcome = \<lparr>success = False, chunks = [JNum 1], ttftMs = Some 5\<rparr>,
         sink = \<lparr>response = \<lparr>writeCalls = [''data: 1\<newline>\<newline>'',
                    ''event: error\<newline>data: {\"error\":{\"message\":\"socket hang up\"}}\<newline>\<newline>'', doneFrame],
                  written = [''data: 1\<newline>\<newline>'',
                    ''event: error\<newline>data: {\"error\":{\"message\":\"socket hang up\"}}\<newline>\<newline>'', doneFrame],
                  ended = True, faults = []\<rparr>, closed = True\<rparr>,
         calls = [OnChunk (JNum 1), OnError ''socket hang up'']\<rparr>
   \<and> terminated (sink (streamProviderResponse exampleParse exampleStringify 0
        (streaming [Chunk 5 ''data: 1\<newline>'', ReadThrows (ErrorObject ''socket hang up'')]) openWriter))
   \<and> terminated (sink (streamProviderResponse exampleParse exampleStringify 0
        (Fetched \<lparr>status = 500, body = None\<rparr>) openWriter))"
proof -
  have h: "accepting openWriter"
    "clientStays (streaming [Chunk 5 ''data: 1\<newline>'', ReadThrows (ErrorObject ''socket hang up'')])"
    "clientStays (Fetched \<lparr>status = 500, body = None\<rparr>)"
    by code_simp+
  have r: "streamProviderResponse exampleParse exampleStringify 0
        (streaming [Chunk 5 ''data: 1\<newline>'', ReadThrows (ErrorObject ''socket hang up'')]) openWriter
      = \<lparr>outcome = \<lparr>success = False, chunks = [JNum 1], ttftMs = Some 5\<rparr>,
         sink = \<lparr>response = \<lparr>writeCalls = [''data: 1\<newline>\<newline>'',
                    ''event: error\<newline>data: {\"error\":{\"message\":\"socket hang up\"}}\<newline>\<newline>'', doneFrame],
                  written = [''data: 1\<newline>\<newline>'',
                    ''event: error\<newline>data: {\"error\":{\"message\":\"socket hang up\"}}\<newline>\<newline>'', doneFrame],
                  ended = True, faults = []\<rparr>, closed = True\<rparr>,
         calls = [OnChunk (JNum 1), OnError ''socket hang up'']\<rparr>"
    by code_simp
  show ?thesis
    using sink_closed_on_every_return[of exampleParse exampleStringify 0
        "streaming [Chunk 5 ''data: 1\<newline>'', ReadThrows (ErrorObject ''socket hang up'')]" openWriter]
      sink_closed_on_every_return[of exampleParse exampleStringify 0
        "Fetched \<lparr>status = 500, body = None\<rparr>" openWriter]
      h r
    by simp
qed

text \<open>
  Claim C1, as stated, fails: when the client disconnects after the first chunk, the
  write of the second chunk yields false and the relay returns; the sink is closed, but
  no \<open>[DONE]\<close> was sent and the transport was not ended.
\<close>
theorem no_done_after_client_disconnect:
  "streamProviderResponse exampleParse exampleStringify 0
     (streaming [Chunk 5 ''data: 1\<newline>'', ClientClose, Chunk 9 ''data: 2\<newline>data: 3\<newline>'']) openWriter
   = \<lparr>outcome = \<lparr>success = False, chunks = [JNum 1, JNum 2], ttftMs = Some 5\<rparr>,
      sink = \<lparr>response = \<lparr>writeCalls = [''data: 1\<newline>\<newline>''],
                  written = [''data: 1\<newline>\<newline>''], ended = False, faults = []\<rparr>,
               closed = True\<rparr>,
      calls = [OnChunk (JNum 1), OnChunk (JNum 2)]\<rparr>
   \<and> \<not> terminated (sink (streamProviderResponse exampleParse exampleStringify 0
     (streaming [Chunk 5 ''data: 1\<newline>'', ClientClose, Chunk 9 ''data: 2\<newline>data: 3\<newline>'']) openWriter))"
  by code_simp

text \<open>
  Claim C4 at an input where the code departs from it. The upstream ends without a final
  newline, so the second chunk is forwarded from the rest of the buffer after the read
  loop; the client has disconnected, the write of that chunk yields false, and yet the
  call completes with \<open>success = True\<close> and calls \<open>onComplete\<close>.
\<close>
theorem flush_write_failure_reported_as_success:
  "streamProviderResponse exampleParse exampleStringify 0
     (streaming [Chunk 5 ''data: 1\<newline>'', ClientClose, Chunk 9 ''data: 2'']) openWriter
   = \<lparr>outcome = \<lparr>success = True, chunks = [JNum 1, JNum 2], ttftMs = Some 5\<rparr>,
      sink = \<lparr>response = \<lparr>writeCalls = [''data: 1\<newline>\<newline>''],
                  written = [''data: 1\<newline>\<newline>''], ended = False, faults = []\<rparr>,
               closed = True\<rparr>,
      calls = [OnChunk (JNum 1), OnChunk (JNum 2), OnComplete [JNum 1, JNum 2] ]\<rparr>
   \<and> \<not> fst (writeMessage exampleStringify (dataMessage (JNum 2))
          \<lparr>response = \<lparr>writeCalls = [''data: 1\<newline>\<newline>''],
                  written = [''data: 1\<newline>\<newline>''], ended = False, faults = []\<rparr>,
           closed = True\<rparr>)"
  by code_simp


end
